theory Spec2Isabelle
  imports Main "HOL-Library.Word" "HOL-Library.Char_ord" "HOL-Library.List_Lexorder"
begin

section \<open>The binlog synchronisation loop of package binlogsync\<close>

text \<open>
  The development embeds \<^verbatim>\<open>storage/binlogsync/sync.go\<close> (\<^verbatim>\<open>startSyncBinlog\<close>,
  \<^verbatim>\<open>handleRowsEvent\<close>) and the two checkpoint methods of \<^verbatim>\<open>Canal\<close>
  (\<^verbatim>\<open>masterSave\<close>, \<^verbatim>\<open>masterUpdate\<close>). Every call that leaves the loop (to the event
  source, the handlers, the table cache, the checkpoint store, the logger) is recorded
  as an \<open>Effect\<close>, in program order, so that statements about which calls happen and
  in which order become statements about a list.
\<close>

subsection \<open>Errors\<close>

text \<open>
  \<^verbatim>\<open>context.DeadlineExceeded\<close> is a sentinel compared with \<^verbatim>\<open>==\<close>; \<^verbatim>\<open>errors.NewFatalf\<close> and
  \<^verbatim>\<open>errors.NewNotSupportedf\<close> build errors of a kind; \<^verbatim>\<open>errors.Wrap\<close> puts a message in
  front of a cause. Any other error value of a collaborator is \<open>ErrorString\<close>. Messages
  are the format strings of the source without their verbs and arguments.
\<close>

datatype error =
    DeadlineExceeded
  | Fatal string
  | NotSupported string
  | ErrorString string
  | Wrap error string

subsection \<open>Data\<close>

text \<open>\<^verbatim>\<open>MasterStatus\<close>: the two fields the loop reads and writes; \<^verbatim>\<open>Position\<close> is a Go
  \<^verbatim>\<open>uint\<close> (64 bit).\<close>

record MasterStatus =
  File :: string
  Position :: "64 word"

record Table =
  Name :: string

type_synonym Row = "string list"

text \<open>The event types of the replication protocol that \<^verbatim>\<open>handleRowsEvent\<close> names
  (\<^verbatim>\<open>replication.EventType\<close> is a byte).\<close>

definition WRITE_ROWS_EVENTv1 :: "8 word" where "WRITE_ROWS_EVENTv1 = 23"
definition UPDATE_ROWS_EVENTv1 :: "8 word" where "UPDATE_ROWS_EVENTv1 = 24"
definition DELETE_ROWS_EVENTv1 :: "8 word" where "DELETE_ROWS_EVENTv1 = 25"
definition WRITE_ROWS_EVENTv2 :: "8 word" where "WRITE_ROWS_EVENTv2 = 30"
definition UPDATE_ROWS_EVENTv2 :: "8 word" where "UPDATE_ROWS_EVENTv2 = 31"
definition DELETE_ROWS_EVENTv2 :: "8 word" where "DELETE_ROWS_EVENTv2 = 32"

definition UpdateAction :: string where "UpdateAction = ''update''"
definition InsertAction :: string where "InsertAction = ''insert''"
definition DeleteAction :: string where "DeleteAction = ''delete''"

record EventHeader =
  EventType :: "8 word"
  LogPos :: "32 word"

text \<open>The dynamic type of \<^verbatim>\<open>ev.Event\<close>: the three types the loop's type switch names and
  any other.\<close>

datatype Event =
    RotateEvent "64 word" string
  | RowsEvent "64 word" string string "Row list"
  | TableMapEvent
  | GenericEvent

record BinlogEvent =
  Header :: EventHeader
  Event :: Event

text \<open>Modelled from the spec: the handler capability (\<^verbatim>\<open>RowsEventHandler\<close>) is not among the
  sources; per the spec it consumes a row change (\<open>Do\<close>: action, table, rows) and a
  stream-boundary notification with the position (\<open>Complete\<close>), each returning an error
  or none.
\<close>

record RowsEventHandler =
  Do :: "string \<Rightarrow> Table \<Rightarrow> Row list \<Rightarrow> error option"
  Complete :: "MasterStatus \<Rightarrow> error option"

text \<open>
  The part of \<^verbatim>\<open>Canal\<close> the loop uses. \<open>cfgw\<close> is the checkpoint store (\<open>None\<close> is Go's
  \<^verbatim>\<open>nil\<close>): its answer to a write of a position attempted at a time. \<open>FindTable\<close> is the
  table cache with its loader, taken as a parameter. Times are nanoseconds since Go's
  zero \<^verbatim>\<open>time.Time\<close>, which is the initial \<open>masterLastSaveTime\<close>.
\<close>

record Canal =
  DBName :: string
  cfgw :: "(int \<Rightarrow> MasterStatus \<Rightarrow> error option) option"
  masterStatus :: MasterStatus
  masterLastSaveTime :: int
  rsHandlers :: "RowsEventHandler list"
  FindTable :: "int \<Rightarrow> string \<Rightarrow> error + Table"
  LogIsInfo :: bool
  LogIsDebug :: bool

datatype Effect =
    StartSyncCall string "32 word"
  | GetEventCall int
  | CompleteCall nat MasterStatus
  | FindTableCall int string
  | DoCall nat string Table "Row list"
  | MasterUpdateCall string "64 word"
  | MasterSaveCall
  | WriteCall MasterStatus "error option"
  | LogInfo string
  | LogDebug string

subsection \<open>Time\<close>

definition Second :: int where "Second = 1000000000"

definition maxDuration :: int where "maxDuration = 2 ^ 63 - 1"
definition minDuration :: int where "minDuration = - (2 ^ 63)"

text \<open>\<^verbatim>\<open>Time.Sub\<close>: the difference, saturated to the range of a \<^verbatim>\<open>Duration\<close> (int64).\<close>

definition Sub :: "int \<Rightarrow> int \<Rightarrow> int" where
  "Sub t u = (let d = t - u in
     if d > maxDuration then maxDuration else if d < minDuration then minDuration else d)"

subsection \<open>The checkpoint methods\<close>

text \<open>\<^verbatim>\<open>masterSave\<close>, with \<open>n\<close> the reading of \<^verbatim>\<open>time.Now()\<close>. The result is the returned
  error, the canal after the call and the calls made.\<close>

definition masterSave :: "Canal \<Rightarrow> int \<Rightarrow> error option \<times> Canal \<times> Effect list" where
  "masterSave c n =
     (if Sub n (masterLastSaveTime c) < Second then (None, c, [MasterSaveCall])
      else case cfgw c of
        None \<Rightarrow>
          (None, c,
           MasterSaveCall #
           (if LogIsDebug c
            then [LogDebug ''[binlogsync] Master Status cannot be saved because config.Writer is nil'']
            else []))
      | Some w \<Rightarrow>
          (case w n (masterStatus c) of
             Some err \<Rightarrow>
               (Some (Wrap err ''[binlogsync] failed to write into config''), c,
                [MasterSaveCall, WriteCall (masterStatus c) (Some err)])
           | None \<Rightarrow>
               (None, c\<lparr>masterLastSaveTime := n\<rparr>,
                [MasterSaveCall, WriteCall (masterStatus c) None])))"

definition masterUpdate :: "Canal \<Rightarrow> string \<Rightarrow> 64 word \<Rightarrow> Canal \<times> Effect list" where
  "masterUpdate c fileName p =
     (c\<lparr>masterStatus := (masterStatus c)\<lparr>File := fileName, Position := p\<rparr>\<rparr>,
      [MasterUpdateCall fileName p])"

subsection \<open>Dispatch to the handlers\<close>

text \<open>Modelled from the spec: \<^verbatim>\<open>travelRowsEventHandler\<close> is not among the sources. Per the
  spec the row change goes synchronously to every registered handler, in registration
  order, and the first handler to return an error aborts the dispatch for that event;
  the error is propagated up. The index counts the handlers already passed.
\<close>

fun travel :: "RowsEventHandler list \<Rightarrow> nat \<Rightarrow> string \<Rightarrow> Table \<Rightarrow> Row list
    \<Rightarrow> error option \<times> Effect list" where
  "travel [] i action t rows = (None, [])"
| "travel (h # hs) i action t rows =
     (case Do h action t rows of
        Some err \<Rightarrow> (Some err, [DoCall i action t rows])
      | None \<Rightarrow>
          (case travel hs (Suc i) action t rows of
             (r, effs) \<Rightarrow> (r, DoCall i action t rows # effs)))"

definition travelRowsEventHandler :: "Canal \<Rightarrow> string \<Rightarrow> Table \<Rightarrow> Row list
    \<Rightarrow> error option \<times> Effect list" where
  "travelRowsEventHandler c action t rows = travel (rsHandlers c) 0 action t rows"

text \<open>Modelled from the spec: \<^verbatim>\<open>flushEventHandlers\<close> is not among the sources. Per the spec
  it invokes the flush notification on all handlers, each given the canal's current
  position. The loop expects an error from it: it returns one when a handler returned
  one. Which error it is when several handlers fail the spec does not say (here the
  first), and no statement below depends on it.
\<close>

fun flush :: "RowsEventHandler list \<Rightarrow> nat \<Rightarrow> MasterStatus \<Rightarrow> error option \<times> Effect list" where
  "flush [] i ms = (None, [])"
| "flush (h # hs) i ms =
     (case flush hs (Suc i) ms of
        (r, effs) \<Rightarrow>
          (case Complete h ms of Some err \<Rightarrow> Some err | None \<Rightarrow> r,
           CompleteCall i ms # effs))"

definition flushEventHandlers :: "Canal \<Rightarrow> error option \<times> Effect list" where
  "flushEventHandlers c = flush (rsHandlers c) 0 (masterStatus c)"

subsection \<open>Classifying a rows event\<close>

text \<open>\<^verbatim>\<open>handleRowsEvent\<close>: the returned error and the calls made.\<close>

definition handleRowsEvent :: "Canal \<Rightarrow> BinlogEvent \<Rightarrow> error option \<times> Effect list" where
  "handleRowsEvent c e =
     (case Event e of
        RowsEvent tableID schema table rows \<Rightarrow>
          if DBName c \<noteq> schema
          then (None, if LogIsDebug c then [LogDebug ''[binlogsync] Skipping database''] else [])
          else
            (case FindTable c (sint tableID) table of
               Inl err \<Rightarrow>
                 (Some (Wrap err ''[binlogsync] GetTable''), [FindTableCall (sint tableID) table])
             | Inr t \<Rightarrow>
                 (let et = EventType (Header e) in
                  if et = WRITE_ROWS_EVENTv1 \<or> et = WRITE_ROWS_EVENTv2
                  then (case travelRowsEventHandler c InsertAction t rows of
                          (r, effs) \<Rightarrow> (r, FindTableCall (sint tableID) table # effs))
                  else if et = DELETE_ROWS_EVENTv1 \<or> et = DELETE_ROWS_EVENTv2
                  then (case travelRowsEventHandler c DeleteAction t rows of
                          (r, effs) \<Rightarrow> (r, FindTableCall (sint tableID) table # effs))
                  else if et = UPDATE_ROWS_EVENTv1 \<or> et = UPDATE_ROWS_EVENTv2
                  then (case travelRowsEventHandler c UpdateAction t rows of
                          (r, effs) \<Rightarrow> (r, FindTableCall (sint tableID) table # effs))
                  else (Some (NotSupported ''[binlogsync] EventType not yet supported''),
                        [FindTableCall (sint tableID) table])))
      | _ \<Rightarrow>
          (Some (Fatal ''[binlogsync] handleRowsEvent: Failed to cast to *replication.RowsEvent type''),
           []))"

subsection \<open>The streaming loop\<close>

text \<open>
  One pass of the \<^verbatim>\<open>for\<close> loop of \<^verbatim>\<open>startSyncBinlog\<close>. The loop's variables are the
  canal, the local copy \<open>pos\<close> of the position and the local \<open>timeout\<close> (a
  \<^verbatim>\<open>time.Duration\<close>, int64 nanoseconds); \<open>ctxArg\<close> is the deadline of the caller's
  context (\<open>None\<close>: it has none). What the world answers during the pass is a \<open>Step\<close>:
  the clock reading when the wait begins, the event source's answer to \<^verbatim>\<open>GetEvent\<close>
  given the bounded wait, and the clock reading \<^verbatim>\<open>masterSave\<close> takes. A cancelled context
  shows as the error \<^verbatim>\<open>GetEvent\<close> answers with.
\<close>

record LoopState =
  canal :: Canal
  pos :: MasterStatus
  timeout :: int
  ctxArg :: "int option"

record Step =
  getEvent :: "int \<Rightarrow> error + BinlogEvent"
  start :: int
  now :: int

text \<open>\<^verbatim>\<open>context.WithTimeout(parent, d)\<close> at clock reading \<open>t\<close>: the time the derived context
  allows a wait. The derived context ends after \<open>d\<close> or at the parent's deadline, whichever
  is earlier; a deadline already passed leaves no time.\<close>

definition WithTimeout :: "int option \<Rightarrow> int \<Rightarrow> int \<Rightarrow> int" where
  "WithTimeout parent t d =
     (case parent of None \<Rightarrow> d | Some deadline \<Rightarrow> max 0 (min d (deadline - t)))"

text \<open>The bounded wait of a pass: \<^verbatim>\<open>context.WithTimeout(ctxArg, 2*time.Second)\<close>.\<close>

definition boundedWait :: "LoopState \<Rightarrow> Step \<Rightarrow> int" where
  "boundedWait st s = WithTimeout (ctxArg st) (start s) (2 * Second)"

text \<open>Doubling an int64 wraps around.\<close>

definition double64 :: "int \<Rightarrow> int" where
  "double64 d = signed_take_bit 63 (2 * d)"

text \<open>The end of a pass that is not left early: \<^verbatim>\<open>masterUpdate\<close> with the local position,
  then \<^verbatim>\<open>masterSave\<close>, whose error is logged and dropped.\<close>

definition updateAndSave :: "LoopState \<Rightarrow> int \<Rightarrow> LoopState \<times> Effect list" where
  "updateAndSave st n =
     (case masterUpdate (canal st) (File (pos st)) (Position (pos st)) of
        (c1, effs1) \<Rightarrow>
          (case masterSave c1 n of
             (None, c2, effs2) \<Rightarrow> (st\<lparr>canal := c2\<rparr>, effs1 @ effs2)
           | (Some err, c2, effs2) \<Rightarrow>
               (st\<lparr>canal := c2\<rparr>,
                effs1 @ effs2 @
                [LogInfo ''[binlogsync] startSyncBinlog: Failed to save master position''])))"

text \<open>The result of a pass: \<open>Some err\<close> when the function returns \<open>err\<close>, \<open>None\<close> when
  the loop goes on; the variables after the pass; the calls made.\<close>

definition iteration :: "LoopState \<Rightarrow> Step \<Rightarrow> error option \<times> LoopState \<times> Effect list" where
  "iteration st s =
     (let w = boundedWait st s in
      case getEvent s w of
        Inl err \<Rightarrow>
          if err = DeadlineExceeded
          then (None, st\<lparr>timeout := double64 (timeout st)\<rparr>, [GetEventCall w])
          else (Some (Wrap err ''[binlogsync] startSyncBinlog.GetEvent''), st,
                [GetEventCall w])
      | Inr ev \<Rightarrow>
          (let st1 = st\<lparr>timeout := Second,
                         pos := (pos st)\<lparr>Position := ucast (LogPos (Header ev))\<rparr>\<rparr>;
               c = canal st1
           in case Event ev of
                RotateEvent p nextLogName \<Rightarrow>
                  (case flushEventHandlers c of
                     (Some err, effs) \<Rightarrow>
                       (Some (Wrap err ''[binlogsync] startSyncBinlog.flushEventHandlers''), st1,
                        GetEventCall w # effs)
                   | (None, effs) \<Rightarrow>
                       (case updateAndSave
                               (st1\<lparr>pos := (pos st1)\<lparr>File := nextLogName, Position := p\<rparr>\<rparr>)
                               (now s) of
                          (st2, effs2) \<Rightarrow>
                            (None, st2,
                             GetEventCall w # effs @
                             (if LogIsInfo c
                              then [LogInfo ''[binlogsync] Rotate binlog to a new position'']
                              else []) @ effs2)))
              | RowsEvent tableID schema table rows \<Rightarrow>
                  (case handleRowsEvent c ev of
                     (Some err, effs) \<Rightarrow>
                       (Some (Wrap err ''[binlogsync] handleRowsEvent''), st1,
                        GetEventCall w # effs @
                        (if LogIsInfo c
                         then [LogInfo ''[binlogsync] Rotate binlog to a new position'']
                         else []))
                   | (None, effs) \<Rightarrow>
                       (case updateAndSave st1 (now s) of
                          (st2, effs2) \<Rightarrow> (None, st2, GetEventCall w # effs @ effs2)))
              | TableMapEvent \<Rightarrow> (None, st1, [GetEventCall w])
              | GenericEvent \<Rightarrow>
                  (case updateAndSave st1 (now s) of
                     (st2, effs2) \<Rightarrow> (None, st2, GetEventCall w # effs2))))"

text \<open>
  The loop over the answers the world gives, one \<open>Step\<close> per pass. The loop has no exit
  but \<^verbatim>\<open>return err\<close>; when the steps are used up it is still running (blocked in the next
  wait), which is the outcome \<open>Running\<close>.
\<close>

datatype Outcome = Running | Returned error

fun syncLoop :: "LoopState \<Rightarrow> Step list \<Rightarrow> Outcome \<times> LoopState \<times> Effect list" where
  "syncLoop st [] = (Running, st, [])"
| "syncLoop st (s # ss) =
     (case iteration st s of
        (Some err, st1, effs) \<Rightarrow> (Returned err, st1, effs)
      | (None, st1, effs) \<Rightarrow>
          (case syncLoop st1 ss of
             (r, st2, effs2) \<Rightarrow> (r, st2, effs @ effs2)))"

text \<open>\<^verbatim>\<open>startSyncBinlog\<close>: \<open>ctx\<close> is the deadline of \<^verbatim>\<open>ctxArg\<close>, \<open>startSync\<close> the error
  \<^verbatim>\<open>StartSync\<close> returns, if any.\<close>

definition startSyncBinlog :: "Canal \<Rightarrow> int option \<Rightarrow> error option \<Rightarrow> Step list
    \<Rightarrow> Outcome \<times> LoopState \<times> Effect list" where
  "startSyncBinlog c ctx startSync steps =
     (let p = masterStatus c;
          st = \<lparr>canal = c, pos = p, timeout = Second, ctxArg = ctx\<rparr>;
          info = (if LogIsInfo c then [LogInfo ''[binlogsync] Start syncing of binlog''] else []);
          call = [StartSyncCall (File p) (ucast (Position p))]
      in case startSync of
           Some err \<Rightarrow>
             (Returned (Fatal ''[binlogsync] Start sync replication error''), st, info @ call)
         | None \<Rightarrow>
             (case syncLoop st steps of
                (r, st1, effs) \<Rightarrow> (r, st1, info @ call @ effs)))"

subsection \<open>Comparing positions\<close>

text \<open>Modelled from the spec: \<^verbatim>\<open>MasterStatus.Compare\<close> is not among the sources (only its test
  \<^verbatim>\<open>TestMasterStatus_Compare\<close> is). Per the spec it compares the segment (the file name)
  lexicographically first and, if equal, the offset numerically, with results -1, 0
  and 1. Go compares strings byte by byte, as the order on \<open>string\<close> does here.
\<close>

definition Compare :: "MasterStatus \<Rightarrow> MasterStatus \<Rightarrow> int" where
  "Compare a b =
     (if File a < File b then - 1
      else if File b < File a then 1
      else if Position a < Position b then - 1
      else if Position b < Position a then 1
      else 0)"

subsection \<open>A burst of checkpoint calls\<close>

text \<open>\<^verbatim>\<open>masterUpdate\<close> then \<^verbatim>\<open>masterSave\<close>, once per element: the position to set and the
  clock reading at the save.\<close>

fun advancePersist :: "Canal \<Rightarrow> (string \<times> 64 word \<times> int) list \<Rightarrow> Canal \<times> Effect list" where
  "advancePersist c [] = (c, [])"
| "advancePersist c ((f, p, n) # calls) =
     (case masterUpdate c f p of
        (c1, effs1) \<Rightarrow>
          (case masterSave c1 n of
             (r, c2, effs2) \<Rightarrow>
               (case advancePersist c2 calls of
                  (c3, effs3) \<Rightarrow> (c3, effs1 @ effs2 @ effs3))))"

subsection \<open>Reading a list of effects\<close>

fun isWrite :: "Effect \<Rightarrow> bool" where
  "isWrite (WriteCall ms r) = True"
| "isWrite e = False"

fun isWritten :: "Effect \<Rightarrow> bool" where
  "isWritten (WriteCall ms None) = True"
| "isWritten e = False"

fun isMasterUpdate :: "Effect \<Rightarrow> bool" where
  "isMasterUpdate (MasterUpdateCall f p) = True"
| "isMasterUpdate e = False"

fun isTableOrHandler :: "Effect \<Rightarrow> bool" where
  "isTableOrHandler (FindTableCall i n) = True"
| "isTableOrHandler (DoCall i a t rows) = True"
| "isTableOrHandler (CompleteCall i ms) = True"
| "isTableOrHandler e = False"

fun waits :: "Effect list \<Rightarrow> int list" where
  "waits [] = []"
| "waits (GetEventCall d # es) = d # waits es"
| "waits (e # es) = waits es"

text \<open>What a run shows to the outside: the outcome, the canal, the local position and the
  calls made; the local \<open>timeout\<close> is left out.\<close>

definition visible :: "'a \<times> LoopState \<times> Effect list \<Rightarrow> 'a \<times> Canal \<times> MasterStatus \<times> Effect list" where
  "visible x = (fst x, canal (fst (snd x)), pos (fst (snd x)), snd (snd x))"

text \<open>Two loop states that differ at most in the checkpoint store and the time of the
  last save.\<close>

definition sameButStore :: "LoopState \<Rightarrow> LoopState \<Rightarrow> bool" where
  "sameButStore a b =
     (pos a = pos b \<and> timeout a = timeout b \<and> ctxArg a = ctxArg b \<and>
      (canal a)\<lparr>cfgw := None, masterLastSaveTime := 0\<rparr> =
      (canal b)\<lparr>cfgw := None, masterLastSaveTime := 0\<rparr>)"

subsection \<open>Concrete inputs\<close>

text \<open>A canal for the database \<open>shop\<close> at position \<open>{log.1, 100}\<close> that has not saved yet,
  and steps whose clock reads 63900000000 seconds after the zero time (the year 2025).\<close>

definition okHandler :: RowsEventHandler where
  "okHandler = \<lparr>Do = (\<lambda>a t rows. None), Complete = (\<lambda>ms. None)\<rparr>"

definition failingHandler :: RowsEventHandler where
  "failingHandler = \<lparr>Do = (\<lambda>a t rows. Some (ErrorString ''handler failed'')), Complete = (\<lambda>ms. None)\<rparr>"

definition shopCanal :: Canal where
  "shopCanal =
     \<lparr>DBName = ''shop'',
      cfgw = Some (\<lambda>n ms. None),
      masterStatus = \<lparr>File = ''log.1'', Position = 100\<rparr>,
      masterLastSaveTime = 0,
      rsHandlers = [okHandler, failingHandler, okHandler],
      FindTable = (\<lambda>i name. Inr \<lparr>Name = name\<rparr>),
      LogIsInfo = False,
      LogIsDebug = False\<rparr>"

definition shopState :: LoopState where
  "shopState =
     \<lparr>canal = shopCanal, pos = masterStatus shopCanal, timeout = Second, ctxArg = None\<rparr>"

definition quietCanal :: Canal where
  "quietCanal = shopCanal\<lparr>rsHandlers := [okHandler, okHandler]\<rparr>"

definition quietState :: LoopState where
  "quietState =
     \<lparr>canal = quietCanal, pos = masterStatus quietCanal, timeout = Second, ctxArg = None\<rparr>"

definition brokenStoreCanal :: Canal where
  "brokenStoreCanal = quietCanal\<lparr>cfgw := Some (\<lambda>n ms. Some (ErrorString ''store down''))\<rparr>"

definition brokenStoreState :: LoopState where
  "brokenStoreState =
     \<lparr>canal = brokenStoreCanal, pos = masterStatus brokenStoreCanal, timeout = Second,
      ctxArg = None\<rparr>"

definition rotateStep :: Step where
  "rotateStep =
     \<lparr>getEvent = (\<lambda>d. Inr \<lparr>Header = \<lparr>EventType = 4, LogPos = 0\<rparr>,
                             Event = RotateEvent 4 ''log.2''\<rparr>),
      start = 63900000000000000000, now = 63900000000000000000\<rparr>"

definition insertStep :: Step where
  "insertStep =
     \<lparr>getEvent = (\<lambda>d. Inr \<lparr>Header = \<lparr>EventType = WRITE_ROWS_EVENTv2, LogPos = 350\<rparr>,
                             Event = RowsEvent 7 ''shop'' ''orders'' [[''r1'']]\<rparr>),
      start = 63900000000000000000, now = 63900000000000000000\<rparr>"

definition oldRowsStep :: Step where
  "oldRowsStep =
     \<lparr>getEvent = (\<lambda>d. Inr \<lparr>Header = \<lparr>EventType = 20, LogPos = 350\<rparr>,
                             Event = RowsEvent 7 ''shop'' ''orders'' [[''r1'']]\<rparr>),
      start = 63900000000000000000, now = 63900000000000000000\<rparr>"

definition foreignRowsStep :: Step where
  "foreignRowsStep =
     \<lparr>getEvent = (\<lambda>d. Inr \<lparr>Header = \<lparr>EventType = WRITE_ROWS_EVENTv2, LogPos = 350\<rparr>,
                             Event = RowsEvent 9 ''blog'' ''posts'' [[''r1'']]\<rparr>),
      start = 63900000000000000000, now = 63900000000000000000\<rparr>"

definition tableMapStep :: Step where
  "tableMapStep =
     \<lparr>getEvent = (\<lambda>d. Inr \<lparr>Header = \<lparr>EventType = 19, LogPos = 300\<rparr>, Event = TableMapEvent\<rparr>),
      start = 63900000000000000000, now = 63900000000000000000\<rparr>"

definition genericStep :: Step where
  "genericStep =
     \<lparr>getEvent = (\<lambda>d. Inr \<lparr>Header = \<lparr>EventType = 16, LogPos = 400\<rparr>, Event = GenericEvent\<rparr>),
      start = 63900000000000000000, now = 63900000000000000000\<rparr>"

definition timeoutStep :: Step where
  "timeoutStep =
     \<lparr>getEvent = (\<lambda>d. Inl DeadlineExceeded),
      start = 63900000000000000000, now = 63900000000000000000\<rparr>"

definition sourceErrorStep :: Step where
  "sourceErrorStep =
     \<lparr>getEvent = (\<lambda>d. Inl (ErrorString ''connection lost'')),
      start = 63900000000000000000, now = 63900000000000000000\<rparr>"

text \<open>The same canal run under a context whose deadline is one second after the clock
  reading of the steps, and a canal whose first handler refuses the flush.\<close>

definition deadlineState :: LoopState where
  "deadlineState = quietState\<lparr>ctxArg := Some 63900000001000000000\<rparr>"

definition refusingHandler :: RowsEventHandler where
  "refusingHandler =
     \<lparr>Do = (\<lambda>a t rows. None), Complete = (\<lambda>ms. Some (ErrorString ''flush failed''))\<rparr>"

definition refusingCanal :: Canal where
  "refusingCanal = shopCanal\<lparr>rsHandlers := [refusingHandler, okHandler]\<rparr>"

definition refusingState :: LoopState where
  "refusingState =
     \<lparr>canal = refusingCanal, pos = masterStatus refusingCanal, timeout = Second, ctxArg = None\<rparr>"

section \<open>Properties\<close>

subsection \<open>Unfolding the loop\<close>

lemma syncLoop_continue:
  "iteration st s = (None, st1, effs) \<Longrightarrow>
   syncLoop st (s # ss) = (case syncLoop st1 ss of (r, st2, effs2) \<Rightarrow> (r, st2, effs @ effs2))"
  by simp

lemma syncLoop_return:
  "iteration st s = (Some err, st1, effs) \<Longrightarrow> syncLoop st (s # ss) = (Returned err, st1, effs)"
  by simp

lemma iteration_timeout:
  "getEvent s (boundedWait st s) = Inl DeadlineExceeded \<Longrightarrow>
   iteration st s = (None, st\<lparr>timeout := double64 (timeout st)\<rparr>, [GetEventCall (boundedWait st s)])"
  by (simp add: iteration_def)

lemma iteration_source_error:
  "getEvent s (boundedWait st s) = Inl err \<Longrightarrow> err \<noteq> DeadlineExceeded \<Longrightarrow>
   iteration st s =
     (Some (Wrap err ''[binlogsync] startSyncBinlog.GetEvent''), st, [GetEventCall (boundedWait st s)])"
  by (simp add: iteration_def)

lemma startSyncBinlog_loop:
  "startSyncBinlog c ctx None steps =
     (case syncLoop \<lparr>canal = c, pos = masterStatus c, timeout = Second, ctxArg = ctx\<rparr> steps of
        (r, st1, effs) \<Rightarrow>
          (r, st1,
           (if LogIsInfo c then [LogInfo ''[binlogsync] Start syncing of binlog''] else []) @
           StartSyncCall (File (masterStatus c)) (ucast (Position (masterStatus c))) # effs))"
  by (simp add: startSyncBinlog_def Let_def)

lemma startSyncBinlog_refused:
  "fst (startSyncBinlog c ctx (Some err) steps) =
     Returned (Fatal ''[binlogsync] Start sync replication error'')"
  by (simp add: startSyncBinlog_def Let_def)

lemmas example_defs =
  Second_def iteration_def updateAndSave_def masterUpdate_def masterSave_def Sub_def
  maxDuration_def minDuration_def handleRowsEvent_def travelRowsEventHandler_def
  flushEventHandlers_def double64_def boundedWait_def WithTimeout_def
  shopState_def shopCanal_def quietState_def quietCanal_def brokenStoreState_def
  brokenStoreCanal_def okHandler_def failingHandler_def
  rotateStep_def insertStep_def oldRowsStep_def foreignRowsStep_def tableMapStep_def
  genericStep_def timeoutStep_def sourceErrorStep_def
  WRITE_ROWS_EVENTv1_def WRITE_ROWS_EVENTv2_def UPDATE_ROWS_EVENTv1_def UPDATE_ROWS_EVENTv2_def
  DELETE_ROWS_EVENTv1_def DELETE_ROWS_EVENTv2_def InsertAction_def UpdateAction_def DeleteAction_def

subsection \<open>Wait timeouts and source errors\<close>

text \<open>
  C6. When \<^verbatim>\<open>GetEvent\<close> answers with an error: if the error is the wait timeout
  (\<^verbatim>\<open>context.DeadlineExceeded\<close>) the loop goes on with the next wait, canal and position
  as they were; any other error ends the loop, which returns that error (wrapped) after
  this one call.
\<close>

theorem timeout_continues_other_error_returns:
  assumes "getEvent s (boundedWait st s) = Inl err"
  shows "if err = DeadlineExceeded
         then syncLoop st (s # ss) =
                (case syncLoop (st\<lparr>timeout := double64 (timeout st)\<rparr>) ss of
                   (r, st2, effs2) \<Rightarrow> (r, st2, GetEventCall (boundedWait st s) # effs2))
         else syncLoop st (s # ss) =
                (Returned (Wrap err ''[binlogsync] startSyncBinlog.GetEvent''), st,
                 [GetEventCall (boundedWait st s)])"
proof (cases "err = DeadlineExceeded")
  case True
  with assms have "iteration st s =
      (None, st\<lparr>timeout := double64 (timeout st)\<rparr>, [GetEventCall (boundedWait st s)])"
    by (simp add: iteration_timeout)
  then show ?thesis using True by (simp add: syncLoop_continue)
next
  case False
  with assms have "iteration st s =
      (Some (Wrap err ''[binlogsync] startSyncBinlog.GetEvent''), st, [GetEventCall (boundedWait st s)])"
    by (simp add: iteration_source_error)
  then show ?thesis using False by (simp add: syncLoop_return)
qed

theorem timeout_continues_other_error_returns_witness:
  "fst (syncLoop quietState [timeoutStep, genericStep]) = Running \<and>
   waits (snd (snd (syncLoop quietState [timeoutStep, genericStep]))) = [2000000000, 2000000000] \<and>
   syncLoop quietState [sourceErrorStep, genericStep] =
     (Returned (Wrap (ErrorString ''connection lost'') ''[binlogsync] startSyncBinlog.GetEvent''),
      quietState, [GetEventCall 2000000000])"
proof -
  have t: "getEvent timeoutStep (boundedWait quietState timeoutStep) = Inl DeadlineExceeded"
    by (simp add: timeoutStep_def)
  have e: "getEvent sourceErrorStep (boundedWait quietState sourceErrorStep) = Inl (ErrorString ''connection lost'')"
    by (simp add: sourceErrorStep_def)
  show ?thesis
    using timeout_continues_other_error_returns [OF t, of "[genericStep]"]
      timeout_continues_other_error_returns [OF e, of "[genericStep]"]
    by (simp add: example_defs)
qed

subsection \<open>The unused timeout variable\<close>

lemma waits_append: "waits (xs @ ys) = waits xs @ waits ys"
  by (induction xs rule: waits.induct) simp_all

lemma waits_travel: "waits (snd (travel hs i a t rows)) = []"
  by (induction hs arbitrary: i) (simp_all add: case_prod_beta split: option.splits)

lemma waits_flush: "waits (snd (flush hs i ms)) = []"
  by (induction hs arbitrary: i) (simp_all add: case_prod_beta split: option.splits)

lemma waits_masterSave: "waits (snd (snd (masterSave c n))) = []"
  by (simp add: masterSave_def split: option.splits)

lemma waits_updateAndSave: "waits (snd (updateAndSave st n)) = []"
  by (simp add: updateAndSave_def masterUpdate_def waits_append waits_masterSave case_prod_beta
      split: option.splits)

lemma waits_handleRowsEvent: "waits (snd (handleRowsEvent c e)) = []"
  by (simp add: handleRowsEvent_def travelRowsEventHandler_def Let_def waits_travel case_prod_beta
      split: Event.splits sum.splits)

lemma waits_iteration: "waits (snd (snd (iteration st s))) = [boundedWait st s]"
  by (simp add: iteration_def Let_def case_prod_beta waits_append waits_flush flushEventHandlers_def
      waits_handleRowsEvent waits_updateAndSave
      split: sum.splits Event.splits option.splits)

lemma ctxArg_updateAndSave: "ctxArg (fst (updateAndSave st n)) = ctxArg st"
  by (simp add: updateAndSave_def case_prod_beta split: option.splits)

lemma ctxArg_iteration: "ctxArg (fst (snd (iteration st s))) = ctxArg st"
  by (simp add: iteration_def Let_def case_prod_beta ctxArg_updateAndSave
      split: sum.splits Event.splits option.splits)

lemma waits_syncLoop:
  "waits (snd (snd (syncLoop st ss))) =
     map (\<lambda>s. WithTimeout (ctxArg st) (start s) (2 * Second))
       (take (length (waits (snd (snd (syncLoop st ss))))) ss)"
proof (induction ss arbitrary: st)
  case Nil
  then show ?case by simp
next
  case (Cons s ss)
  let ?st1 = "fst (snd (iteration st s))"
  have w: "waits (snd (snd (iteration st s))) = [WithTimeout (ctxArg st) (start s) (2 * Second)]"
    by (simp add: waits_iteration boundedWait_def)
  show ?case
  proof (cases "fst (iteration st s)")
    case None
    have "waits (snd (snd (syncLoop ?st1 ss))) =
        map (\<lambda>s. WithTimeout (ctxArg st) (start s) (2 * Second))
          (take (length (waits (snd (snd (syncLoop ?st1 ss))))) ss)"
      using Cons.IH [of ?st1] by (simp add: ctxArg_iteration)
    then show ?thesis using None w
      by (simp add: case_prod_beta waits_append)
  next
    case (Some err)
    then show ?thesis using w
      by (simp add: case_prod_beta)
  qed
qed

lemma waits_running:
  "fst (syncLoop st ss) = Running \<Longrightarrow> length (waits (snd (snd (syncLoop st ss)))) = length ss"
proof (induction ss arbitrary: st)
  case Nil
  then show ?case by simp
next
  case (Cons s ss)
  let ?st1 = "fst (snd (iteration st s))"
  show ?case
  proof (cases "fst (iteration st s)")
    case None
    with Cons.prems have "fst (syncLoop ?st1 ss) = Running"
      by (simp add: case_prod_beta)
    from Cons.IH [OF this] None show ?thesis
      using waits_iteration [of st s] by (simp add: case_prod_beta waits_append)
  next
    case (Some err)
    with Cons.prems show ?thesis by (simp add: case_prod_beta)
  qed
qed

lemma double64_wraps: "double64 d = (2 * d + 2 ^ 63) mod 2 ^ 64 - 2 ^ 63"
  by (simp add: double64_def signed_take_bit_eq_take_bit_shift take_bit_eq_mod)

lemma double64_doubles: "- (2 ^ 62) \<le> d \<Longrightarrow> d < 2 ^ 62 \<Longrightarrow> double64 d = 2 * d"
proof -
  assume "- (2 ^ 62) \<le> d" and "d < 2 ^ 62"
  then have "0 \<le> 2 * d + 2 ^ 63" and "2 * d + 2 ^ 63 < (2 ^ 64 :: int)" by simp_all
  then have "(2 * d + 2 ^ 63) mod 2 ^ 64 = 2 * d + 2 ^ 63" by (rule mod_pos_pos_trivial)
  then show ?thesis by (simp add: double64_wraps)
qed

lemma iteration_timeout_update:
  "visible (iteration (a\<lparr>timeout := d\<rparr>) s) = visible (iteration a s)"
  by (simp add: iteration_def visible_def boundedWait_def Let_def split: sum.splits)

lemma iteration_timeout_unused:
  assumes "canal a = canal b" "pos a = pos b" "ctxArg a = ctxArg b"
  shows "visible (iteration a s) = visible (iteration b s)"
proof -
  have "b = a\<lparr>timeout := timeout b\<rparr>"
    using assms by (cases a; cases b) simp
  then have "visible (iteration b s) = visible (iteration (a\<lparr>timeout := timeout b\<rparr>) s)"
    by simp
  then show ?thesis by (simp add: iteration_timeout_update)
qed

lemma syncLoop_timeout_unused:
  "canal a = canal b \<Longrightarrow> pos a = pos b \<Longrightarrow> ctxArg a = ctxArg b \<Longrightarrow>
   visible (syncLoop a ss) = visible (syncLoop b ss)"
proof (induction ss arbitrary: a b)
  case Nil
  then show ?case by (simp add: visible_def)
next
  case (Cons s ss)
  have v: "visible (iteration a s) = visible (iteration b s)"
    using Cons.prems by (rule iteration_timeout_unused)
  obtain r a1 ea where ia: "iteration a s = (r, a1, ea)" by (cases "iteration a s") auto
  obtain r' b1 eb where ib: "iteration b s = (r', b1, eb)" by (cases "iteration b s") auto
  from v ia ib have eq: "r' = r" "canal a1 = canal b1" "pos a1 = pos b1" "eb = ea"
    by (simp_all add: visible_def)
  have cx: "ctxArg a1 = ctxArg b1"
    using ctxArg_iteration [of a s] ctxArg_iteration [of b s] ia ib Cons.prems(3) by simp
  show ?case
  proof (cases r)
    case None
    have "visible (syncLoop a1 ss) = visible (syncLoop b1 ss)"
      using eq cx by (intro Cons.IH) simp_all
    then show ?thesis using None ia ib eq
      by (simp add: visible_def case_prod_beta)
  next
    case (Some err)
    then show ?thesis using ia ib eq by (simp add: visible_def)
  qed
qed

text \<open>
  C9, as the code has it. On a wait timeout the loop doubles its \<open>timeout\<close> variable (an
  int64: twice the value while that fits, wrapped around otherwise), but the variable
  reaches nothing. Every pass hands exactly one bounded wait to \<^verbatim>\<open>GetEvent\<close>: two seconds
  when the caller's context has no deadline, and otherwise two seconds or the time left
  until that deadline, whichever is less. The waits of a run are those of its steps, one
  for each step while the loop is running. Whatever value the variable holds, the run has
  the same outcome, canal, position and calls.
\<close>

theorem timeout_variable_has_no_effect:
  "waits (snd (snd (iteration st s))) = [WithTimeout (ctxArg st) (start s) (2 * Second)] \<and>
   (ctxArg st = None \<longrightarrow> waits (snd (snd (iteration st s))) = [2 * Second]) \<and>
   (\<forall>deadline. ctxArg st = Some deadline \<longrightarrow>
      waits (snd (snd (iteration st s))) = [max 0 (min (2 * Second) (deadline - start s))]) \<and>
   waits (snd (snd (syncLoop st ss))) =
     map (\<lambda>s. WithTimeout (ctxArg st) (start s) (2 * Second))
       (take (length (waits (snd (snd (syncLoop st ss))))) ss) \<and>
   (fst (syncLoop st ss) = Running \<longrightarrow> length (waits (snd (snd (syncLoop st ss)))) = length ss) \<and>
   (getEvent s (boundedWait st s) = Inl DeadlineExceeded \<longrightarrow>
      timeout (fst (snd (iteration st s))) = (2 * timeout st + 2 ^ 63) mod 2 ^ 64 - 2 ^ 63 \<and>
      (- (2 ^ 62) \<le> timeout st \<and> timeout st < 2 ^ 62 \<longrightarrow>
         timeout (fst (snd (iteration st s))) = 2 * timeout st)) \<and>
   visible (syncLoop (st\<lparr>timeout := d\<rparr>) ss) = visible (syncLoop st ss)"
proof (intro conjI)
  show w: "waits (snd (snd (iteration st s))) = [WithTimeout (ctxArg st) (start s) (2 * Second)]"
    by (simp add: waits_iteration boundedWait_def)
  show "ctxArg st = None \<longrightarrow> waits (snd (snd (iteration st s))) = [2 * Second]"
    using w by (simp add: WithTimeout_def)
  show "\<forall>deadline. ctxArg st = Some deadline \<longrightarrow>
      waits (snd (snd (iteration st s))) = [max 0 (min (2 * Second) (deadline - start s))]"
    using w by (simp add: WithTimeout_def)
  show "waits (snd (snd (syncLoop st ss))) =
     map (\<lambda>s. WithTimeout (ctxArg st) (start s) (2 * Second))
       (take (length (waits (snd (snd (syncLoop st ss))))) ss)"
    by (rule waits_syncLoop)
  show "fst (syncLoop st ss) = Running \<longrightarrow> length (waits (snd (snd (syncLoop st ss)))) = length ss"
    using waits_running [of st ss] by blast
  show "getEvent s (boundedWait st s) = Inl DeadlineExceeded \<longrightarrow>
      timeout (fst (snd (iteration st s))) = (2 * timeout st + 2 ^ 63) mod 2 ^ 64 - 2 ^ 63 \<and>
      (- (2 ^ 62) \<le> timeout st \<and> timeout st < 2 ^ 62 \<longrightarrow>
         timeout (fst (snd (iteration st s))) = 2 * timeout st)"
    using double64_wraps [of "timeout st"] double64_doubles [of "timeout st"]
    by (simp add: iteration_timeout)
  show "visible (syncLoop (st\<lparr>timeout := d\<rparr>) ss) = visible (syncLoop st ss)"
    by (rule syncLoop_timeout_unused) simp_all
qed

theorem timeout_variable_has_no_effect_witness:
  "waits (snd (snd (iteration quietState timeoutStep))) = [2000000000] \<and>
   waits (snd (snd (iteration deadlineState timeoutStep))) = [1000000000] \<and>
   timeout (fst (snd (iteration quietState timeoutStep))) = 2000000000 \<and>
   length (waits (snd (snd (syncLoop quietState [timeoutStep, timeoutStep])))) = 2 \<and>
   visible (syncLoop (quietState\<lparr>timeout := 64000000000\<rparr>) [timeoutStep, timeoutStep, genericStep])
     = visible (syncLoop quietState [timeoutStep, timeoutStep, genericStep])"
proof -
  have t: "getEvent timeoutStep (boundedWait quietState timeoutStep) = Inl DeadlineExceeded"
    by (simp add: timeoutStep_def)
  have n: "ctxArg quietState = None" by (simp add: quietState_def)
  have c: "ctxArg deadlineState = Some 63900000001000000000"
    by (simp add: deadlineState_def)
  have b: "- (2 ^ 62) \<le> timeout quietState \<and> timeout quietState < 2 ^ 62"
    by (simp add: quietState_def Second_def)
  have r: "fst (syncLoop quietState [timeoutStep, timeoutStep]) = Running"
    by (simp add: iteration_timeout [OF t] iteration_def timeoutStep_def)
  have 1: "waits (snd (snd (iteration quietState timeoutStep))) = [2000000000]"
    using timeout_variable_has_no_effect [of quietState timeoutStep] n
    by (simp add: Second_def WithTimeout_def)
  have 2: "waits (snd (snd (iteration deadlineState timeoutStep))) = [1000000000]"
    using timeout_variable_has_no_effect [of deadlineState timeoutStep] c
    by (simp add: Second_def timeoutStep_def WithTimeout_def)
  have 3: "timeout (fst (snd (iteration quietState timeoutStep))) = 2000000000"
    using timeout_variable_has_no_effect [of quietState timeoutStep] t b
    by (simp add: quietState_def Second_def)
  have 4: "length (waits (snd (snd (syncLoop quietState [timeoutStep, timeoutStep])))) = 2"
    using timeout_variable_has_no_effect [of quietState _ "[timeoutStep, timeoutStep]"] r
    by (simp del: syncLoop.simps)
  have 5: "visible (syncLoop (quietState\<lparr>timeout := 64000000000\<rparr>)
        [timeoutStep, timeoutStep, genericStep])
     = visible (syncLoop quietState [timeoutStep, timeoutStep, genericStep])"
    using timeout_variable_has_no_effect
      [of quietState _ "[timeoutStep, timeoutStep, genericStep]" 64000000000]
    by (simp del: syncLoop.simps)
  from 1 2 3 4 5 show ?thesis by blast
qed

text \<open>
  C9, as the claim has it, fails under a context with a deadline: when the deadline is
  one second away, the wait handed to \<^verbatim>\<open>GetEvent\<close> is one second, not two.
\<close>

theorem wait_shortened_by_context_deadline:
  "waits (snd (snd (syncLoop deadlineState [timeoutStep, timeoutStep]))) =
     [1000000000, 1000000000]"
  by (simp add: iteration_def timeoutStep_def deadlineState_def quietState_def boundedWait_def
      WithTimeout_def Second_def)

subsection \<open>A failing checkpoint store\<close>

lemma write_notin_travel: "WriteCall ms r \<notin> set (snd (travel hs i a t rows))"
  by (induction hs arbitrary: i) (simp_all add: case_prod_beta split: option.splits)

lemma write_notin_flush: "WriteCall ms r \<notin> set (snd (flush hs i p))"
  by (induction hs arbitrary: i) (simp_all add: case_prod_beta split: option.splits)

lemma write_notin_handleRowsEvent: "WriteCall ms r \<notin> set (snd (handleRowsEvent c e))"
  by (simp add: handleRowsEvent_def travelRowsEventHandler_def Let_def write_notin_travel
      case_prod_beta split: Event.splits sum.splits)

lemma masterSave_cases:
  obtains (debounced) "Sub n (masterLastSaveTime c) < Second" "masterSave c n = (None, c, [MasterSaveCall])"
  | (nostore) "Second \<le> Sub n (masterLastSaveTime c)" "cfgw c = None"
      "masterSave c n = (None, c, MasterSaveCall #
           (if LogIsDebug c
            then [LogDebug ''[binlogsync] Master Status cannot be saved because config.Writer is nil'']
            else []))"
  | (failed) w err where "Second \<le> Sub n (masterLastSaveTime c)" "cfgw c = Some w"
      "w n (masterStatus c) = Some err"
      "masterSave c n = (Some (Wrap err ''[binlogsync] failed to write into config''), c,
                [MasterSaveCall, WriteCall (masterStatus c) (Some err)])"
  | (written) w where "Second \<le> Sub n (masterLastSaveTime c)" "cfgw c = Some w"
      "w n (masterStatus c) = None"
      "masterSave c n = (None, c\<lparr>masterLastSaveTime := n\<rparr>,
                [MasterSaveCall, WriteCall (masterStatus c) None])"
  by (cases "Sub n (masterLastSaveTime c) < Second"; cases "cfgw c")
     (auto simp: masterSave_def split: option.splits)

lemma updateAndSave_failed_write:
  assumes "WriteCall ms (Some e) \<in> set (snd (updateAndSave st n))"
  shows "\<exists>pre. snd (updateAndSave st n) =
           pre @ [WriteCall ms (Some e),
                  LogInfo ''[binlogsync] startSyncBinlog: Failed to save master position'']"
proof -
  let ?c1 = "fst (masterUpdate (canal st) (File (pos st)) (Position (pos st)))"
  show ?thesis
  proof (cases rule: masterSave_cases [of n ?c1])
    case debounced
    then show ?thesis using assms by (simp add: updateAndSave_def masterUpdate_def)
  next
    case nostore
    then show ?thesis using assms by (simp add: updateAndSave_def masterUpdate_def)
  next
    case (failed w err)
    then show ?thesis using assms by (auto simp add: updateAndSave_def masterUpdate_def)
  next
    case (written w)
    then show ?thesis using assms by (simp add: updateAndSave_def masterUpdate_def)
  qed
qed

lemma iteration_failed_write:
  assumes "iteration st s = (r, st1, effs)" and "WriteCall ms (Some e) \<in> set effs"
  shows "r = None \<and>
         (\<exists>pre. effs = pre @ [WriteCall ms (Some e),
                  LogInfo ''[binlogsync] startSyncBinlog: Failed to save master position''])"
proof (cases "getEvent s (boundedWait st s)")
  case (Inl err)
  then show ?thesis using assms by (auto simp: iteration_def Let_def split: if_splits)
next
  case (Inr ev)
  let ?st1 = "st\<lparr>timeout := Second, pos := (pos st)\<lparr>Position := ucast (LogPos (Header ev))\<rparr>\<rparr>"
  show ?thesis
  proof (cases "Event ev")
    case (RotateEvent p nextLogName)
    let ?st2 = "?st1\<lparr>pos := (pos ?st1)\<lparr>File := nextLogName, Position := p\<rparr>\<rparr>"
    obtain fr fe where f: "flushEventHandlers (canal st) = (fr, fe)"
      by (cases "flushEventHandlers (canal st)") auto
    have nf: "WriteCall ms (Some e) \<notin> set fe"
      using write_notin_flush [of ms "Some e" "rsHandlers (canal st)" 0 "masterStatus (canal st)"] f
      by (simp add: flushEventHandlers_def)
    show ?thesis
    proof (cases fr)
      case None
      with Inr RotateEvent f assms nf
      have "WriteCall ms (Some e) \<in> set (snd (updateAndSave ?st2 (now s)))" and "r = None"
        and "effs = GetEventCall (boundedWait st s) # fe @
                 (if LogIsInfo (canal st)
                  then [LogInfo ''[binlogsync] Rotate binlog to a new position''] else []) @
                 snd (updateAndSave ?st2 (now s))"
        by (auto simp: iteration_def Let_def case_prod_beta split: if_splits)
      then show ?thesis using updateAndSave_failed_write [of ms e ?st2 "now s"]
        by (metis append_Cons append_assoc)
    next
      case (Some err)
      with Inr RotateEvent f assms nf show ?thesis
        by (auto simp: iteration_def Let_def)
    qed
  next
    case (RowsEvent tableID schema table rows)
    obtain hr he where h: "handleRowsEvent (canal st) ev = (hr, he)"
      by (cases "handleRowsEvent (canal st) ev") auto
    have nh: "WriteCall ms (Some e) \<notin> set he"
      using write_notin_handleRowsEvent [of ms "Some e" "canal st" ev] h by simp
    show ?thesis
    proof (cases hr)
      case None
      with Inr RowsEvent h assms nh
      have "WriteCall ms (Some e) \<in> set (snd (updateAndSave ?st1 (now s)))" and "r = None"
        and "effs = GetEventCall (boundedWait st s) # he @ snd (updateAndSave ?st1 (now s))"
        by (auto simp: iteration_def Let_def case_prod_beta split: if_splits)
      then show ?thesis using updateAndSave_failed_write [of ms e ?st1 "now s"]
        by (metis append_Cons append_assoc)
    next
      case (Some err)
      with Inr RowsEvent h assms nh show ?thesis
        by (auto simp: iteration_def Let_def split: if_splits)
    qed
  next
    case TableMapEvent
    with Inr assms show ?thesis by (auto simp: iteration_def Let_def)
  next
    case GenericEvent
    with Inr assms
    have "WriteCall ms (Some e) \<in> set (snd (updateAndSave ?st1 (now s)))" and "r = None"
      and "effs = GetEventCall (boundedWait st s) # snd (updateAndSave ?st1 (now s))"
      by (auto simp: iteration_def Let_def case_prod_beta)
    then show ?thesis using updateAndSave_failed_write [of ms e ?st1 "now s"]
      by (metis append_Cons)
  qed
qed

lemma sameButStore_fields:
  assumes "sameButStore a b"
  shows "pos a = pos b" "timeout a = timeout b" "ctxArg a = ctxArg b"
    "DBName (canal a) = DBName (canal b)" "masterStatus (canal a) = masterStatus (canal b)"
    "rsHandlers (canal a) = rsHandlers (canal b)" "FindTable (canal a) = FindTable (canal b)"
    "LogIsInfo (canal a) = LogIsInfo (canal b)" "LogIsDebug (canal a) = LogIsDebug (canal b)"
  using assms by (cases "canal a"; cases "canal b"; simp add: sameButStore_def)+

lemma sameButStore_intro:
  assumes "pos a = pos b" "timeout a = timeout b" "ctxArg a = ctxArg b"
    "DBName (canal a) = DBName (canal b)" "masterStatus (canal a) = masterStatus (canal b)"
    "rsHandlers (canal a) = rsHandlers (canal b)" "FindTable (canal a) = FindTable (canal b)"
    "LogIsInfo (canal a) = LogIsInfo (canal b)" "LogIsDebug (canal a) = LogIsDebug (canal b)"
  shows "sameButStore a b"
  using assms by (cases "canal a"; cases "canal b"; simp add: sameButStore_def)

lemma handleRowsEvent_store:
  assumes "DBName c = DBName d" "rsHandlers c = rsHandlers d" "FindTable c = FindTable d"
    "LogIsDebug c = LogIsDebug d"
  shows "handleRowsEvent c e = handleRowsEvent d e"
  unfolding handleRowsEvent_def travelRowsEventHandler_def assms by (rule refl)

lemma flushEventHandlers_store:
  "rsHandlers c = rsHandlers d \<Longrightarrow> masterStatus c = masterStatus d \<Longrightarrow>
   flushEventHandlers c = flushEventHandlers d"
  by (simp add: flushEventHandlers_def)

lemma masterSave_keeps:
  "DBName (fst (snd (masterSave c n))) = DBName c"
  "masterStatus (fst (snd (masterSave c n))) = masterStatus c"
  "rsHandlers (fst (snd (masterSave c n))) = rsHandlers c"
  "FindTable (fst (snd (masterSave c n))) = FindTable c"
  "LogIsInfo (fst (snd (masterSave c n))) = LogIsInfo c"
  "LogIsDebug (fst (snd (masterSave c n))) = LogIsDebug c"
  by (simp_all add: masterSave_def split: option.splits)

lemma updateAndSave_keeps:
  "pos (fst (updateAndSave st n)) = pos st"
  "timeout (fst (updateAndSave st n)) = timeout st"
  "DBName (canal (fst (updateAndSave st n))) = DBName (canal st)"
  "masterStatus (canal (fst (updateAndSave st n))) = (masterStatus (canal st))\<lparr>File := File (pos st), Position := Position (pos st)\<rparr>"
  "rsHandlers (canal (fst (updateAndSave st n))) = rsHandlers (canal st)"
  "FindTable (canal (fst (updateAndSave st n))) = FindTable (canal st)"
  "LogIsInfo (canal (fst (updateAndSave st n))) = LogIsInfo (canal st)"
  "LogIsDebug (canal (fst (updateAndSave st n))) = LogIsDebug (canal st)"
  by (simp_all add: updateAndSave_def masterUpdate_def case_prod_beta masterSave_keeps
      split: option.splits)

lemma updateAndSave_store:
  assumes "sameButStore a b"
  shows "sameButStore (fst (updateAndSave a n)) (fst (updateAndSave b m))"
  using sameButStore_fields [OF assms]
  by (intro sameButStore_intro) (simp_all add: updateAndSave_keeps ctxArg_updateAndSave)

lemma iteration_store:
  assumes "sameButStore a b"
  shows "fst (iteration a s) = fst (iteration b s) \<and>
         sameButStore (fst (snd (iteration a s))) (fst (snd (iteration b s)))"
proof (cases "getEvent s (boundedWait a s)")
  case (Inl err)
  have w: "boundedWait b s = boundedWait a s"
    using sameButStore_fields [OF assms] by (simp add: boundedWait_def)
  have d: "sameButStore (a\<lparr>timeout := double64 (timeout a)\<rparr>) (b\<lparr>timeout := double64 (timeout b)\<rparr>)"
    using sameButStore_fields [OF assms] by (intro sameButStore_intro) simp_all
  show ?thesis
    using Inl w d assms by (simp add: iteration_def Let_def)
next
  case (Inr ev)
  have w: "boundedWait b s = boundedWait a s"
    using sameButStore_fields [OF assms] by (simp add: boundedWait_def)
  let ?a1 = "a\<lparr>timeout := Second, pos := (pos a)\<lparr>Position := ucast (LogPos (Header ev))\<rparr>\<rparr>"
  let ?b1 = "b\<lparr>timeout := Second, pos := (pos b)\<lparr>Position := ucast (LogPos (Header ev))\<rparr>\<rparr>"
  have s1: "sameButStore ?a1 ?b1"
    using sameButStore_fields [OF assms] by (intro sameButStore_intro) simp_all
  have h: "handleRowsEvent (canal a) ev = handleRowsEvent (canal b) ev"
    using sameButStore_fields [OF assms] by (intro handleRowsEvent_store)
  have f: "flushEventHandlers (canal a) = flushEventHandlers (canal b)"
    using sameButStore_fields [OF assms] by (intro flushEventHandlers_store)
  show ?thesis
  proof (cases "Event ev")
    case (RotateEvent p nextLogName)
    let ?a2 = "?a1\<lparr>pos := (pos ?a1)\<lparr>File := nextLogName, Position := p\<rparr>\<rparr>"
    let ?b2 = "?b1\<lparr>pos := (pos ?b1)\<lparr>File := nextLogName, Position := p\<rparr>\<rparr>"
    have s2: "sameButStore ?a2 ?b2"
      using sameButStore_fields [OF assms] by (intro sameButStore_intro) simp_all
    show ?thesis
      using Inr w RotateEvent f s1 updateAndSave_store [OF s2, of "now s" "now s"]
      by (simp add: iteration_def Let_def case_prod_beta split: option.splits)
  next
    case (RowsEvent tableID schema table rows)
    show ?thesis
      using Inr w RowsEvent h s1 updateAndSave_store [OF s1, of "now s" "now s"]
      by (simp add: iteration_def Let_def case_prod_beta split: option.splits)
  next
    case TableMapEvent
    then show ?thesis using Inr w s1 by (simp add: iteration_def Let_def)
  next
    case GenericEvent
    then show ?thesis
      using Inr w s1 updateAndSave_store [OF s1, of "now s" "now s"]
      by (simp add: iteration_def Let_def case_prod_beta)
  qed
qed

lemma syncLoop_store:
  "sameButStore a b \<Longrightarrow> fst (syncLoop a ss) = fst (syncLoop b ss)"
proof (induction ss arbitrary: a b)
  case Nil
  then show ?case by simp
next
  case (Cons s ss)
  from iteration_store [OF Cons.prems, of s]
  have r: "fst (iteration a s) = fst (iteration b s)"
    and n: "sameButStore (fst (snd (iteration a s))) (fst (snd (iteration b s)))"
    by simp_all
  show ?case
  proof (cases "fst (iteration a s)")
    case None
    then show ?thesis using r Cons.IH [OF n]
      by (simp add: case_prod_beta)
  next
    case (Some err)
    then show ?thesis using r
      by (simp add: case_prod_beta)
  qed
qed

text \<open>
  C10. A failure of the checkpoint store never ends the loop. If a write to the store
  fails during a pass, the pass does not return: the failure is logged, nothing follows
  the log call in that pass, and the loop goes on with the next step. And the outcome of
  a whole run (still running, or the error returned) is the same for any other store and
  any other time of the last save.
\<close>

theorem checkpoint_failure_never_ends_loop:
  assumes "iteration st s = (r, st1, effs)" and "WriteCall ms (Some e) \<in> set effs"
  shows "r = None \<and>
         (\<exists>pre. effs = pre @ [WriteCall ms (Some e),
                  LogInfo ''[binlogsync] startSyncBinlog: Failed to save master position'']) \<and>
         syncLoop st (s # ss) =
           (case syncLoop st1 ss of (r2, st2, effs2) \<Rightarrow> (r2, st2, effs @ effs2)) \<and>
         (\<forall>b. sameButStore st b \<longrightarrow> fst (syncLoop b (s # ss)) = fst (syncLoop st (s # ss)))"
proof -
  from iteration_failed_write [OF assms]
  have r: "r = None"
    and l: "\<exists>pre. effs = pre @ [WriteCall ms (Some e),
                  LogInfo ''[binlogsync] startSyncBinlog: Failed to save master position'']"
    by simp_all
  from r assms(1) have c: "syncLoop st (s # ss) =
      (case syncLoop st1 ss of (r2, st2, effs2) \<Rightarrow> (r2, st2, effs @ effs2))"
    by (simp add: syncLoop_continue)
  have "\<forall>b. sameButStore st b \<longrightarrow> fst (syncLoop b (s # ss)) = fst (syncLoop st (s # ss))"
    using syncLoop_store [of st _ "s # ss"] by (simp del: syncLoop.simps)
  with r l c show ?thesis by blast
qed

lemma brokenStore_pass:
  "iteration brokenStoreState genericStep =
     (None,
      \<lparr>canal = brokenStoreCanal\<lparr>masterStatus := \<lparr>File = ''log.1'', Position = 400\<rparr>\<rparr>,
       pos = \<lparr>File = ''log.1'', Position = 400\<rparr>, timeout = Second, ctxArg = None\<rparr>,
      [GetEventCall 2000000000, MasterUpdateCall ''log.1'' 400, MasterSaveCall,
       WriteCall \<lparr>File = ''log.1'', Position = 400\<rparr> (Some (ErrorString ''store down'')),
       LogInfo ''[binlogsync] startSyncBinlog: Failed to save master position''])"
  by (simp add: example_defs)

lemma brokenStore_quiet: "sameButStore brokenStoreState quietState"
  by (simp add: sameButStore_def brokenStoreState_def brokenStoreCanal_def quietState_def)

theorem checkpoint_failure_never_ends_loop_witness:
  "fst (syncLoop brokenStoreState [genericStep, timeoutStep]) = Running \<and>
   fst (syncLoop quietState [genericStep, timeoutStep]) = Running"
proof -
  have m: "WriteCall \<lparr>File = ''log.1'', Position = 400\<rparr> (Some (ErrorString ''store down''))
      \<in> set [GetEventCall 2000000000, MasterUpdateCall ''log.1'' 400, MasterSaveCall,
       WriteCall \<lparr>File = ''log.1'', Position = 400\<rparr> (Some (ErrorString ''store down'')),
       LogInfo ''[binlogsync] startSyncBinlog: Failed to save master position'']"
    by simp
  have t: "getEvent timeoutStep w = Inl DeadlineExceeded" for w
    by (simp add: timeoutStep_def)
  from checkpoint_failure_never_ends_loop [OF brokenStore_pass m, of "[timeoutStep]"]
  have c: "syncLoop brokenStoreState [genericStep, timeoutStep] =
      (case syncLoop \<lparr>canal = brokenStoreCanal\<lparr>masterStatus := \<lparr>File = ''log.1'', Position = 400\<rparr>\<rparr>,
             pos = \<lparr>File = ''log.1'', Position = 400\<rparr>, timeout = Second, ctxArg = None\<rparr> [timeoutStep] of
         (r2, st2, effs2) \<Rightarrow>
           (r2, st2, [GetEventCall 2000000000, MasterUpdateCall ''log.1'' 400, MasterSaveCall,
       WriteCall \<lparr>File = ''log.1'', Position = 400\<rparr> (Some (ErrorString ''store down'')),
       LogInfo ''[binlogsync] startSyncBinlog: Failed to save master position''] @ effs2))"
    and q: "fst (syncLoop quietState [genericStep, timeoutStep]) =
            fst (syncLoop brokenStoreState [genericStep, timeoutStep])"
    using brokenStore_quiet by blast+
  have "fst (syncLoop brokenStoreState [genericStep, timeoutStep]) = Running"
    unfolding c by (simp add: iteration_timeout [OF t])
  with q show ?thesis by simp
qed

subsection \<open>Rows events\<close>

lemma updateAndSave_effects:
  "\<exists>post. snd (updateAndSave st n) =
            MasterUpdateCall (File (pos st)) (Position (pos st)) # MasterSaveCall # post \<and>
          filter isMasterUpdate post = [] \<and> filter isTableOrHandler post = []"
  by (cases rule: masterSave_cases
        [of n "fst (masterUpdate (canal st) (File (pos st)) (Position (pos st)))"])
     (simp_all add: updateAndSave_def masterUpdate_def)

lemma event_types_distinct:
  "UPDATE_ROWS_EVENTv1 \<noteq> DELETE_ROWS_EVENTv1" "UPDATE_ROWS_EVENTv1 \<noteq> DELETE_ROWS_EVENTv2"
  "UPDATE_ROWS_EVENTv2 \<noteq> DELETE_ROWS_EVENTv1" "UPDATE_ROWS_EVENTv2 \<noteq> DELETE_ROWS_EVENTv2"
  by (simp_all add: UPDATE_ROWS_EVENTv1_def UPDATE_ROWS_EVENTv2_def DELETE_ROWS_EVENTv1_def
      DELETE_ROWS_EVENTv2_def)

text \<open>
  C4. A rows event of a database other than the configured one: \<^verbatim>\<open>handleRowsEvent\<close> returns
  no error and makes no call but the debug log, so the table is not resolved and no
  handler is invoked; the pass goes on to \<^verbatim>\<open>masterUpdate\<close> with the current file and the
  event's \<^verbatim>\<open>LogPos\<close>, then \<^verbatim>\<open>masterSave\<close>.
\<close>

theorem foreign_database_rows_skipped:
  assumes "getEvent s (boundedWait st s) = Inr ev"
    and "Event ev = RowsEvent tableID schema table rows"
    and "schema \<noteq> DBName (canal st)"
  shows "handleRowsEvent (canal st) ev =
           (None, if LogIsDebug (canal st)
                  then [LogDebug ''[binlogsync] Skipping database''] else []) \<and>
         fst (iteration st s) = None \<and>
         (\<exists>post. snd (snd (iteration st s)) =
            GetEventCall (boundedWait st s) #
            (if LogIsDebug (canal st) then [LogDebug ''[binlogsync] Skipping database''] else []) @
            MasterUpdateCall (File (pos st)) (ucast (LogPos (Header ev))) # MasterSaveCall # post \<and>
            filter isTableOrHandler post = []) \<and>
         masterStatus (canal (fst (snd (iteration st s)))) =
           \<lparr>File = File (pos st), Position = ucast (LogPos (Header ev))\<rparr>"
proof -
  let ?st1 = "st\<lparr>timeout := Second, pos := (pos st)\<lparr>Position := ucast (LogPos (Header ev))\<rparr>\<rparr>"
  let ?dbg = "if LogIsDebug (canal st) then [LogDebug ''[binlogsync] Skipping database''] else []"
  have h: "handleRowsEvent (canal st) ev = (None, ?dbg)"
    using assms(2,3) by (auto simp add: handleRowsEvent_def)
  have i: "iteration st s =
      (None, fst (updateAndSave ?st1 (now s)),
       GetEventCall (boundedWait st s) # ?dbg @ snd (updateAndSave ?st1 (now s)))"
    using assms(1,2) h by (simp add: iteration_def Let_def case_prod_beta)
  obtain post where p: "snd (updateAndSave ?st1 (now s)) =
      MasterUpdateCall (File (pos st)) (ucast (LogPos (Header ev))) # MasterSaveCall # post"
    and q: "filter isTableOrHandler post = []"
    using updateAndSave_effects [of ?st1 "now s"] by auto
  have m: "masterStatus (canal (fst (updateAndSave ?st1 (now s)))) =
      \<lparr>File = File (pos st), Position = ucast (LogPos (Header ev))\<rparr>"
    by (simp add: updateAndSave_keeps)
  show ?thesis using h i p q m by simp
qed

theorem foreign_database_rows_skipped_witness:
  "handleRowsEvent (canal quietState)
     \<lparr>Header = \<lparr>EventType = WRITE_ROWS_EVENTv2, LogPos = 350\<rparr>,
      Event = RowsEvent 9 ''blog'' ''posts'' [[''r1'']]\<rparr> = (None, []) \<and>
   fst (iteration quietState foreignRowsStep) = None \<and>
   masterStatus (canal (fst (snd (iteration quietState foreignRowsStep)))) =
     \<lparr>File = ''log.1'', Position = 350\<rparr>"
proof -
  have g: "getEvent foreignRowsStep (boundedWait quietState foreignRowsStep) =
      Inr \<lparr>Header = \<lparr>EventType = WRITE_ROWS_EVENTv2, LogPos = 350\<rparr>,
           Event = RowsEvent 9 ''blog'' ''posts'' [[''r1'']]\<rparr>"
    by (simp add: foreignRowsStep_def)
  have e: "Event \<lparr>Header = \<lparr>EventType = WRITE_ROWS_EVENTv2, LogPos = 350\<rparr>,
           Event = RowsEvent 9 ''blog'' ''posts'' [[''r1'']]\<rparr> =
           RowsEvent 9 ''blog'' ''posts'' [[''r1'']]"
    by simp
  have d: "''blog'' \<noteq> DBName (canal quietState)"
    by (simp add: quietState_def quietCanal_def shopCanal_def)
  show ?thesis
    using foreign_database_rows_skipped [OF g e d]
    by (simp add: quietState_def quietCanal_def shopCanal_def)
qed

text \<open>
  C3. A rows event of the configured database whose table resolves is classified by its
  event type: \<^verbatim>\<open>WRITE_ROWS\<close> v1/v2 is dispatched as the insert action, \<^verbatim>\<open>UPDATE_ROWS\<close> v1/v2
  as the update action, \<^verbatim>\<open>DELETE_ROWS\<close> v1/v2 as the delete action. For any other type
  \<^verbatim>\<open>handleRowsEvent\<close> returns a not-supported error without invoking a handler, and the
  loop returns that error: no position update follows and no later step is read.
\<close>

theorem rows_event_classification:
  assumes "Event e = RowsEvent tableID schema table rows"
    and "schema = DBName (canal st)"
    and "FindTable (canal st) (sint tableID) table = Inr t"
    and "getEvent s (boundedWait st s) = Inr e"
  shows "if EventType (Header e) \<in> {WRITE_ROWS_EVENTv1, WRITE_ROWS_EVENTv2}
         then handleRowsEvent (canal st) e =
                (case travelRowsEventHandler (canal st) InsertAction t rows of
                   (r, effs) \<Rightarrow> (r, FindTableCall (sint tableID) table # effs))
         else if EventType (Header e) \<in> {UPDATE_ROWS_EVENTv1, UPDATE_ROWS_EVENTv2}
         then handleRowsEvent (canal st) e =
                (case travelRowsEventHandler (canal st) UpdateAction t rows of
                   (r, effs) \<Rightarrow> (r, FindTableCall (sint tableID) table # effs))
         else if EventType (Header e) \<in> {DELETE_ROWS_EVENTv1, DELETE_ROWS_EVENTv2}
         then handleRowsEvent (canal st) e =
                (case travelRowsEventHandler (canal st) DeleteAction t rows of
                   (r, effs) \<Rightarrow> (r, FindTableCall (sint tableID) table # effs))
         else handleRowsEvent (canal st) e =
                (Some (NotSupported ''[binlogsync] EventType not yet supported''),
                 [FindTableCall (sint tableID) table]) \<and>
              syncLoop st (s # ss) =
                (Returned (Wrap (NotSupported ''[binlogsync] EventType not yet supported'')
                             ''[binlogsync] handleRowsEvent''),
                 st\<lparr>timeout := Second, pos := (pos st)\<lparr>Position := ucast (LogPos (Header e))\<rparr>\<rparr>,
                 GetEventCall (boundedWait st s) # FindTableCall (sint tableID) table #
                 (if LogIsInfo (canal st)
                  then [LogInfo ''[binlogsync] Rotate binlog to a new position''] else []))"
proof -
  have h: "handleRowsEvent (canal st) e =
      (let et = EventType (Header e) in
       if et = WRITE_ROWS_EVENTv1 \<or> et = WRITE_ROWS_EVENTv2
       then (case travelRowsEventHandler (canal st) InsertAction t rows of
               (r, effs) \<Rightarrow> (r, FindTableCall (sint tableID) table # effs))
       else if et = DELETE_ROWS_EVENTv1 \<or> et = DELETE_ROWS_EVENTv2
       then (case travelRowsEventHandler (canal st) DeleteAction t rows of
               (r, effs) \<Rightarrow> (r, FindTableCall (sint tableID) table # effs))
       else if et = UPDATE_ROWS_EVENTv1 \<or> et = UPDATE_ROWS_EVENTv2
       then (case travelRowsEventHandler (canal st) UpdateAction t rows of
               (r, effs) \<Rightarrow> (r, FindTableCall (sint tableID) table # effs))
       else (Some (NotSupported ''[binlogsync] EventType not yet supported''),
             [FindTableCall (sint tableID) table]))"
    using assms(1,2,3) by (simp add: handleRowsEvent_def)
  have l: "handleRowsEvent (canal st) e =
             (Some (NotSupported ''[binlogsync] EventType not yet supported''),
              [FindTableCall (sint tableID) table]) \<Longrightarrow>
           syncLoop st (s # ss) =
                (Returned (Wrap (NotSupported ''[binlogsync] EventType not yet supported'')
                             ''[binlogsync] handleRowsEvent''),
                 st\<lparr>timeout := Second, pos := (pos st)\<lparr>Position := ucast (LogPos (Header e))\<rparr>\<rparr>,
                 GetEventCall (boundedWait st s) # FindTableCall (sint tableID) table #
                 (if LogIsInfo (canal st)
                  then [LogInfo ''[binlogsync] Rotate binlog to a new position''] else []))"
    using assms(1,4) by (simp add: iteration_def Let_def)
  show ?thesis
    using h l event_types_distinct by (auto simp add: Let_def simp del: syncLoop.simps)
qed

theorem rows_event_classification_witness:
  "snd (handleRowsEvent (canal quietState)
     \<lparr>Header = \<lparr>EventType = WRITE_ROWS_EVENTv2, LogPos = 350\<rparr>,
      Event = RowsEvent 7 ''shop'' ''orders'' [[''r1'']]\<rparr>) =
     [FindTableCall 7 ''orders'', DoCall 0 ''insert'' \<lparr>Name = ''orders''\<rparr> [[''r1'']],
      DoCall 1 ''insert'' \<lparr>Name = ''orders''\<rparr> [[''r1'']]] \<and>
   fst (syncLoop quietState [oldRowsStep, genericStep]) =
     Returned (Wrap (NotSupported ''[binlogsync] EventType not yet supported'')
                 ''[binlogsync] handleRowsEvent'')"
proof -
  let ?e1 = "\<lparr>Header = \<lparr>EventType = WRITE_ROWS_EVENTv2, LogPos = 350\<rparr>,
      Event = RowsEvent 7 ''shop'' ''orders'' [[''r1'']]\<rparr>"
  let ?e2 = "\<lparr>Header = \<lparr>EventType = 20, LogPos = 350\<rparr>,
      Event = RowsEvent 7 ''shop'' ''orders'' [[''r1'']]\<rparr>"
  have g1: "getEvent insertStep (boundedWait quietState insertStep) = Inr ?e1" by (simp add: insertStep_def)
  have g2: "getEvent oldRowsStep (boundedWait quietState oldRowsStep) = Inr ?e2" by (simp add: oldRowsStep_def)
  have d: "''shop'' = DBName (canal quietState)"
    by (simp add: quietState_def quietCanal_def shopCanal_def)
  have f: "FindTable (canal quietState) (sint (7 :: 64 word)) ''orders'' = Inr \<lparr>Name = ''orders''\<rparr>"
    by (simp add: quietState_def quietCanal_def shopCanal_def)
  have e1: "Event ?e1 = RowsEvent 7 ''shop'' ''orders'' [[''r1'']]" by simp
  have e2: "Event ?e2 = RowsEvent 7 ''shop'' ''orders'' [[''r1'']]" by simp
  show ?thesis
    using rows_event_classification [OF e1 d f g1, of "[]"]
      rows_event_classification [OF e2 d f g2, of "[genericStep]"]
    by (simp add: quietState_def quietCanal_def shopCanal_def okHandler_def
        travelRowsEventHandler_def InsertAction_def
        WRITE_ROWS_EVENTv1_def WRITE_ROWS_EVENTv2_def UPDATE_ROWS_EVENTv1_def
        UPDATE_ROWS_EVENTv2_def DELETE_ROWS_EVENTv1_def DELETE_ROWS_EVENTv2_def
        del: syncLoop.simps)
qed

subsection \<open>Dispatch and flush in handler order\<close>

lemma travel_fail_fast:
  assumes "k < length hs" and "Do (hs ! k) a t rows = Some err"
    and "\<forall>j<k. Do (hs ! j) a t rows = None"
  shows "travel hs i a t rows = (Some err, map (\<lambda>j. DoCall (i + j) a t rows) [0..<Suc k])"
  using assms
proof (induction hs arbitrary: i k)
  case Nil
  then show ?case by simp
next
  case (Cons h hs)
  show ?case
  proof (cases k)
    case 0
    with Cons.prems show ?thesis by simp
  next
    case (Suc k')
    from Cons.prems Suc have h: "Do h a t rows = None" by auto
    from Cons.prems Suc have "k' < length hs" "Do (hs ! k') a t rows = Some err"
      "\<forall>j<k'. Do (hs ! j) a t rows = None" by auto
    from Cons.IH [OF this, of "Suc i"]
    have "travel hs (Suc i) a t rows =
        (Some err, map (\<lambda>j. DoCall (Suc i + j) a t rows) [0..<Suc k'])" .
    then show ?thesis using h Suc
      by (simp add: map_upt_Suc del: upt_Suc)
  qed
qed

lemma travel_all_ok:
  "\<forall>j<length hs. Do (hs ! j) a t rows = None \<Longrightarrow>
   travel hs i a t rows = (None, map (\<lambda>j. DoCall (i + j) a t rows) [0..<length hs])"
proof (induction hs arbitrary: i)
  case Nil
  then show ?case by simp
next
  case (Cons h hs)
  from Cons.prems have h: "Do h a t rows = None" by auto
  from Cons.prems have "\<forall>j<length hs. Do (hs ! j) a t rows = None" by auto
  from Cons.IH [OF this, of "Suc i"] h show ?case
    by (simp add: map_upt_Suc del: upt_Suc)
qed

lemma flush_calls:
  "snd (flush hs i ms) = map (\<lambda>j. CompleteCall (i + j) ms) [0..<length hs]"
proof (induction hs arbitrary: i)
  case Nil
  then show ?case by simp
next
  case (Cons h hs)
  from Cons.IH [of "Suc i"] show ?case
    by (simp add: map_upt_Suc case_prod_beta del: upt_Suc)
qed

lemma flush_ok_iff:
  "fst (flush hs i ms) = None \<longleftrightarrow> (\<forall>h\<in>set hs. Complete h ms = None)"
  by (induction hs arbitrary: i) (auto simp: case_prod_beta split: option.splits)

text \<open>
  C5. A row change is given to the handlers in registration order, one after the other.
  Let \<open>k\<close> be the first handler that returns an error (or the number of handlers, when
  none does). Then exactly the handlers \<open>0\<close> to \<open>k\<close> have been invoked, in this order, and
  none after \<open>k\<close>; the error comes back from the dispatch and the loop returns it
  (wrapped) without reading another step. When no handler fails all have been invoked
  and the pass goes on.
\<close>

theorem dispatch_fail_fast:
  assumes "getEvent s (boundedWait st s) = Inr ev"
    and "Event ev = RowsEvent tableID (DBName (canal st)) table rows"
    and "FindTable (canal st) (sint tableID) table = Inr t"
    and "(EventType (Header ev), action) \<in>
           {(WRITE_ROWS_EVENTv1, InsertAction), (WRITE_ROWS_EVENTv2, InsertAction),
            (UPDATE_ROWS_EVENTv1, UpdateAction), (UPDATE_ROWS_EVENTv2, UpdateAction),
            (DELETE_ROWS_EVENTv1, DeleteAction), (DELETE_ROWS_EVENTv2, DeleteAction)}"
    and "k \<le> length (rsHandlers (canal st))"
    and "\<forall>j<k. Do (rsHandlers (canal st) ! j) action t rows = None"
    and "k < length (rsHandlers (canal st)) \<longrightarrow>
           Do (rsHandlers (canal st) ! k) action t rows = Some err"
  shows "if k < length (rsHandlers (canal st))
         then travelRowsEventHandler (canal st) action t rows =
                (Some err, map (\<lambda>j. DoCall j action t rows) [0..<Suc k]) \<and>
              syncLoop st (s # ss) =
                (Returned (Wrap err ''[binlogsync] handleRowsEvent''),
                 st\<lparr>timeout := Second, pos := (pos st)\<lparr>Position := ucast (LogPos (Header ev))\<rparr>\<rparr>,
                 GetEventCall (boundedWait st s) # FindTableCall (sint tableID) table #
                 map (\<lambda>j. DoCall j action t rows) [0..<Suc k] @
                 (if LogIsInfo (canal st)
                  then [LogInfo ''[binlogsync] Rotate binlog to a new position''] else []))
         else travelRowsEventHandler (canal st) action t rows =
                (None, map (\<lambda>j. DoCall j action t rows) [0..<length (rsHandlers (canal st))]) \<and>
              fst (iteration st s) = None"
proof -
  have hd: "handleRowsEvent (canal st) ev =
      (case travelRowsEventHandler (canal st) action t rows of
         (r, effs) \<Rightarrow> (r, FindTableCall (sint tableID) table # effs))"
    using assms(2,3,4)
    by (auto simp add: handleRowsEvent_def WRITE_ROWS_EVENTv1_def WRITE_ROWS_EVENTv2_def
        UPDATE_ROWS_EVENTv1_def UPDATE_ROWS_EVENTv2_def DELETE_ROWS_EVENTv1_def
        DELETE_ROWS_EVENTv2_def)
  show ?thesis
  proof (cases "k < length (rsHandlers (canal st))")
    case True
    with assms(7) have e: "Do (rsHandlers (canal st) ! k) action t rows = Some err" by simp
    have d: "travelRowsEventHandler (canal st) action t rows =
        (Some err, map (\<lambda>j. DoCall j action t rows) [0..<Suc k])"
      using travel_fail_fast [OF True e assms(6), of 0] by (simp add: travelRowsEventHandler_def)
    with hd have h: "handleRowsEvent (canal st) ev =
        (Some err, FindTableCall (sint tableID) table #
                   map (\<lambda>j. DoCall j action t rows) [0..<Suc k])"
      by simp
    have "iteration st s =
        (Some (Wrap err ''[binlogsync] handleRowsEvent''),
         st\<lparr>timeout := Second, pos := (pos st)\<lparr>Position := ucast (LogPos (Header ev))\<rparr>\<rparr>,
         GetEventCall (boundedWait st s) # FindTableCall (sint tableID) table #
         map (\<lambda>j. DoCall j action t rows) [0..<Suc k] @
         (if LogIsInfo (canal st)
          then [LogInfo ''[binlogsync] Rotate binlog to a new position''] else []))"
      using assms(1,2) h by (simp add: iteration_def Let_def del: upt_Suc)
    with d True show ?thesis by (simp add: syncLoop_return del: upt_Suc)
  next
    case False
    with assms(5) have k: "k = length (rsHandlers (canal st))" by simp
    have d: "travelRowsEventHandler (canal st) action t rows =
        (None, map (\<lambda>j. DoCall j action t rows) [0..<length (rsHandlers (canal st))])"
      using travel_all_ok [of "rsHandlers (canal st)" action t rows 0] assms(6) k
      by (simp add: travelRowsEventHandler_def)
    with hd have "fst (handleRowsEvent (canal st) ev) = None" by simp
    then have "fst (iteration st s) = None"
      using assms(1,2) by (simp add: iteration_def Let_def case_prod_beta)
    with d False show ?thesis by simp
  qed
qed

theorem dispatch_fail_fast_witness:
  "syncLoop shopState [insertStep, genericStep] =
     (Returned (Wrap (ErrorString ''handler failed'') ''[binlogsync] handleRowsEvent''),
      shopState\<lparr>pos := \<lparr>File = ''log.1'', Position = 350\<rparr>\<rparr>,
      [GetEventCall 2000000000, FindTableCall 7 ''orders'',
       DoCall 0 ''insert'' \<lparr>Name = ''orders''\<rparr> [[''r1'']],
       DoCall 1 ''insert'' \<lparr>Name = ''orders''\<rparr> [[''r1'']]]) \<and>
   travelRowsEventHandler (canal quietState) InsertAction \<lparr>Name = ''orders''\<rparr> [[''r1'']] =
     (None, [DoCall 0 ''insert'' \<lparr>Name = ''orders''\<rparr> [[''r1'']],
             DoCall 1 ''insert'' \<lparr>Name = ''orders''\<rparr> [[''r1'']]]) \<and>
   fst (iteration quietState insertStep) = None"
proof -
  let ?e = "\<lparr>Header = \<lparr>EventType = WRITE_ROWS_EVENTv2, LogPos = 350\<rparr>,
      Event = RowsEvent 7 ''shop'' ''orders'' [[''r1'']]\<rparr>"
  let ?t = "\<lparr>Name = ''orders''\<rparr>"
  have g: "getEvent insertStep (boundedWait shopState insertStep) = Inr ?e"
    by (simp add: insertStep_def)
  have g': "getEvent insertStep (boundedWait quietState insertStep) = Inr ?e"
    by (simp add: insertStep_def)
  have a: "(EventType (Header ?e), InsertAction) \<in>
           {(WRITE_ROWS_EVENTv1, InsertAction), (WRITE_ROWS_EVENTv2, InsertAction),
            (UPDATE_ROWS_EVENTv1, UpdateAction), (UPDATE_ROWS_EVENTv2, UpdateAction),
            (DELETE_ROWS_EVENTv1, DeleteAction), (DELETE_ROWS_EVENTv2, DeleteAction)}"
    by simp
  have e: "Event ?e = RowsEvent 7 (DBName (canal shopState)) ''orders'' [[''r1'']]"
    by (simp add: shopState_def shopCanal_def)
  have f: "FindTable (canal shopState) (sint (7 :: 64 word)) ''orders'' = Inr ?t"
    by (simp add: shopState_def shopCanal_def)
  have k: "1 \<le> length (rsHandlers (canal shopState))"
    by (simp add: shopState_def shopCanal_def)
  have o: "\<forall>j<1. Do (rsHandlers (canal shopState) ! j) InsertAction ?t [[''r1'']] = None"
    by (simp add: shopState_def shopCanal_def okHandler_def)
  have b: "1 < length (rsHandlers (canal shopState)) \<longrightarrow>
      Do (rsHandlers (canal shopState) ! 1) InsertAction ?t [[''r1'']] =
      Some (ErrorString ''handler failed'')"
    by (simp add: shopState_def shopCanal_def failingHandler_def)
  have e': "Event ?e = RowsEvent 7 (DBName (canal quietState)) ''orders'' [[''r1'']]"
    by (simp add: quietState_def quietCanal_def shopCanal_def)
  have f': "FindTable (canal quietState) (sint (7 :: 64 word)) ''orders'' = Inr ?t"
    by (simp add: quietState_def quietCanal_def shopCanal_def)
  have k': "2 \<le> length (rsHandlers (canal quietState))"
    by (simp add: quietState_def quietCanal_def shopCanal_def)
  have o': "\<forall>j<2. Do (rsHandlers (canal quietState) ! j) InsertAction ?t [[''r1'']] = None"
    by (simp add: quietState_def quietCanal_def shopCanal_def okHandler_def less_Suc_eq
        numeral_2_eq_2)
  have b': "2 < length (rsHandlers (canal quietState)) \<longrightarrow>
      Do (rsHandlers (canal quietState) ! 2) InsertAction ?t [[''r1'']] = Some DeadlineExceeded"
    by (simp add: quietState_def quietCanal_def shopCanal_def)
  have u: "[0..<Suc 1] = [0, 1]" "[0..<length (rsHandlers (canal quietState))] = [0, 1]"
    by (simp_all add: upt_rec quietState_def quietCanal_def shopCanal_def)
  have l: "1 < length (rsHandlers (canal shopState))"
    "\<not> 2 < length (rsHandlers (canal quietState))"
    by (simp_all add: shopState_def shopCanal_def quietState_def quietCanal_def)
  from dispatch_fail_fast [OF g e f a k o b, of "[genericStep]"] l(1)
  have 1: "syncLoop shopState [insertStep, genericStep] =
     (Returned (Wrap (ErrorString ''handler failed'') ''[binlogsync] handleRowsEvent''),
      shopState\<lparr>pos := \<lparr>File = ''log.1'', Position = 350\<rparr>\<rparr>,
      [GetEventCall 2000000000, FindTableCall 7 ''orders'',
       DoCall 0 ''insert'' ?t [[''r1'']], DoCall 1 ''insert'' ?t [[''r1'']]])"
    unfolding u
    by (simp add: shopState_def shopCanal_def InsertAction_def Second_def boundedWait_def
        WithTimeout_def del: syncLoop.simps)
  from dispatch_fail_fast [OF g' e' f' a k' o' b'] l(2)
  have 2: "travelRowsEventHandler (canal quietState) InsertAction ?t [[''r1'']] =
     (None, [DoCall 0 ''insert'' ?t [[''r1'']], DoCall 1 ''insert'' ?t [[''r1'']]]) \<and>
     fst (iteration quietState insertStep) = None"
    unfolding u by (simp add: InsertAction_def)
  from 1 2 show ?thesis by blast
qed

text \<open>
  C2, as the code has it. On a Rotate event the flush comes first: all registered
  handlers are notified, in order, and every notification carries the canal's position
  as it was before the event. Only then, and only when the flush returned no error (no
  handler refused it), \<^verbatim>\<open>masterUpdate\<close> sets the position to the event's \<^verbatim>\<open>NextLogName\<close>
  and \<^verbatim>\<open>Position\<close>. When the flush returns an error the loop returns it and the position
  is not set.
\<close>

theorem rotate_flushes_then_sets_position:
  assumes "getEvent s (boundedWait st s) = Inr ev"
    and "Event ev = RotateEvent p nextLogName"
    and "iteration st s = (r, st1, effs)"
  shows "snd (flushEventHandlers (canal st)) =
           map (\<lambda>j. CompleteCall j (masterStatus (canal st)))
             [0..<length (rsHandlers (canal st))] \<and>
         (fst (flushEventHandlers (canal st)) = None \<longleftrightarrow>
            (\<forall>h\<in>set (rsHandlers (canal st)). Complete h (masterStatus (canal st)) = None)) \<and>
         (case fst (flushEventHandlers (canal st)) of
            None \<Rightarrow>
              r = None \<and>
              (\<exists>post. effs =
                 GetEventCall (boundedWait st s) # snd (flushEventHandlers (canal st)) @
                 (if LogIsInfo (canal st)
                  then [LogInfo ''[binlogsync] Rotate binlog to a new position''] else []) @
                 MasterUpdateCall nextLogName p # MasterSaveCall # post \<and>
                 filter isMasterUpdate post = [] \<and> filter isTableOrHandler post = []) \<and>
              masterStatus (canal st1) = \<lparr>File = nextLogName, Position = p\<rparr>
          | Some err \<Rightarrow>
              r = Some (Wrap err ''[binlogsync] startSyncBinlog.flushEventHandlers'') \<and>
              effs = GetEventCall (boundedWait st s) # snd (flushEventHandlers (canal st)) \<and>
              canal st1 = canal st)"
proof -
  let ?st1 = "st\<lparr>timeout := Second, pos := (pos st)\<lparr>Position := ucast (LogPos (Header ev))\<rparr>\<rparr>"
  let ?st2 = "?st1\<lparr>pos := (pos ?st1)\<lparr>File := nextLogName, Position := p\<rparr>\<rparr>"
  let ?fl = "snd (flushEventHandlers (canal st))"
  have all: "?fl = map (\<lambda>j. CompleteCall j (masterStatus (canal st)))
      [0..<length (rsHandlers (canal st))]"
    using flush_calls [of "rsHandlers (canal st)" 0 "masterStatus (canal st)"]
    by (simp add: flushEventHandlers_def)
  have ok: "fst (flushEventHandlers (canal st)) = None \<longleftrightarrow>
      (\<forall>h\<in>set (rsHandlers (canal st)). Complete h (masterStatus (canal st)) = None)"
    by (simp add: flushEventHandlers_def flush_ok_iff)
  show ?thesis
  proof (cases "fst (flushEventHandlers (canal st))")
    case None
    have i: "iteration st s =
        (None, fst (updateAndSave ?st2 (now s)),
         GetEventCall (boundedWait st s) # ?fl @
         (if LogIsInfo (canal st)
          then [LogInfo ''[binlogsync] Rotate binlog to a new position''] else []) @
         snd (updateAndSave ?st2 (now s)))"
      using assms(1,2) None by (simp add: iteration_def Let_def case_prod_beta)
    obtain post where p: "snd (updateAndSave ?st2 (now s)) =
        MasterUpdateCall nextLogName p # MasterSaveCall # post"
      and q: "filter isMasterUpdate post = []" "filter isTableOrHandler post = []"
      using updateAndSave_effects [of ?st2 "now s"] by auto
    have m: "masterStatus (canal (fst (updateAndSave ?st2 (now s)))) =
        \<lparr>File = nextLogName, Position = p\<rparr>"
      by (simp add: updateAndSave_keeps)
    from i assms(3) have "r = None" "st1 = fst (updateAndSave ?st2 (now s))"
      "effs = GetEventCall (boundedWait st s) # ?fl @
         (if LogIsInfo (canal st)
          then [LogInfo ''[binlogsync] Rotate binlog to a new position''] else []) @
         MasterUpdateCall nextLogName p # MasterSaveCall # post"
      using p by simp_all
    with all ok q m None show ?thesis by simp
  next
    case (Some err)
    have "iteration st s =
        (Some (Wrap err ''[binlogsync] startSyncBinlog.flushEventHandlers''), ?st1,
         GetEventCall (boundedWait st s) # ?fl)"
      using assms(1,2) Some by (simp add: iteration_def Let_def case_prod_beta)
    with assms(3) all ok Some show ?thesis by auto
  qed
qed

lemma rotate_example:
  "iteration quietState rotateStep =
     (None,
      \<lparr>canal = quietCanal\<lparr>masterStatus := \<lparr>File = ''log.2'', Position = 4\<rparr>,
                            masterLastSaveTime := 63900000000000000000\<rparr>,
       pos = \<lparr>File = ''log.2'', Position = 4\<rparr>, timeout = Second, ctxArg = None\<rparr>,
      [GetEventCall 2000000000,
       CompleteCall 0 \<lparr>File = ''log.1'', Position = 100\<rparr>,
       CompleteCall 1 \<lparr>File = ''log.1'', Position = 100\<rparr>,
       MasterUpdateCall ''log.2'' 4, MasterSaveCall,
       WriteCall \<lparr>File = ''log.2'', Position = 4\<rparr> None])"
  by (simp add: example_defs)

lemma refused_example:
  "iteration refusingState rotateStep =
     (Some (Wrap (ErrorString ''flush failed'') ''[binlogsync] startSyncBinlog.flushEventHandlers''),
      refusingState\<lparr>pos := \<lparr>File = ''log.1'', Position = 0\<rparr>\<rparr>,
      [GetEventCall 2000000000,
       CompleteCall 0 \<lparr>File = ''log.1'', Position = 100\<rparr>,
       CompleteCall 1 \<lparr>File = ''log.1'', Position = 100\<rparr>])"
  by (simp add: example_defs refusingState_def refusingCanal_def refusingHandler_def)

theorem rotate_flushes_then_sets_position_witness:
  "snd (flushEventHandlers (canal quietState)) =
     [CompleteCall 0 \<lparr>File = ''log.1'', Position = 100\<rparr>,
      CompleteCall 1 \<lparr>File = ''log.1'', Position = 100\<rparr>] \<and>
   masterStatus (quietCanal\<lparr>masterStatus := \<lparr>File = ''log.2'', Position = 4\<rparr>,
                            masterLastSaveTime := 63900000000000000000\<rparr>) =
     \<lparr>File = ''log.2'', Position = 4\<rparr> \<and>
   fst (flushEventHandlers (canal refusingState)) \<noteq> None \<and>
   canal (refusingState\<lparr>pos := \<lparr>File = ''log.1'', Position = 0\<rparr>\<rparr>) = canal refusingState"
proof -
  let ?e = "\<lparr>Header = \<lparr>EventType = 4, LogPos = 0\<rparr>, Event = RotateEvent 4 ''log.2''\<rparr>"
  have g: "getEvent rotateStep (boundedWait quietState rotateStep) = Inr ?e"
    by (simp add: rotateStep_def)
  have g': "getEvent rotateStep (boundedWait refusingState rotateStep) = Inr ?e"
    by (simp add: rotateStep_def)
  have e: "Event ?e = RotateEvent 4 ''log.2''" by simp
  have ok: "fst (flushEventHandlers (canal quietState)) = None"
    by (simp add: flushEventHandlers_def quietState_def quietCanal_def shopCanal_def okHandler_def)
  have no: "fst (flushEventHandlers (canal refusingState)) = Some (ErrorString ''flush failed'')"
    by (simp add: flushEventHandlers_def refusingState_def refusingCanal_def shopCanal_def
        refusingHandler_def okHandler_def)
  have u: "[0..<length (rsHandlers (canal quietState))] = [0, 1]"
    by (simp add: quietState_def quietCanal_def shopCanal_def upt_rec)
  have m: "masterStatus (canal quietState) = \<lparr>File = ''log.1'', Position = 100\<rparr>"
    by (simp add: quietState_def quietCanal_def shopCanal_def)
  from rotate_flushes_then_sets_position [OF g e rotate_example]
  have 1: "snd (flushEventHandlers (canal quietState)) =
     [CompleteCall 0 \<lparr>File = ''log.1'', Position = 100\<rparr>,
      CompleteCall 1 \<lparr>File = ''log.1'', Position = 100\<rparr>] \<and>
   masterStatus (quietCanal\<lparr>masterStatus := \<lparr>File = ''log.2'', Position = 4\<rparr>,
                            masterLastSaveTime := 63900000000000000000\<rparr>) =
     \<lparr>File = ''log.2'', Position = 4\<rparr>"
    unfolding ok u m by simp
  from rotate_flushes_then_sets_position [OF g' e refused_example]
  have 2: "canal (refusingState\<lparr>pos := \<lparr>File = ''log.1'', Position = 0\<rparr>\<rparr>) = canal refusingState"
    unfolding no by simp
  from 1 2 no show ?thesis by simp
qed

text \<open>
  C2, as the claim has it, fails on a Rotate event whose flush a handler refuses: the
  loop returns the flush error, no \<^verbatim>\<open>masterUpdate\<close> is called and the canal's position
  stays \<open>{log.1, 100}\<close> instead of becoming \<open>{log.2, 4}\<close>.
\<close>

theorem refused_flush_leaves_position:
  "fst (syncLoop refusingState [rotateStep]) =
     Returned (Wrap (ErrorString ''flush failed'')
                 ''[binlogsync] startSyncBinlog.flushEventHandlers'') \<and>
   filter isMasterUpdate (snd (snd (syncLoop refusingState [rotateStep]))) = [] \<and>
   masterStatus (canal (fst (snd (syncLoop refusingState [rotateStep])))) =
     \<lparr>File = ''log.1'', Position = 100\<rparr>"
  by (simp add: refused_example) (simp add: refusingState_def refusingCanal_def shopCanal_def)

subsection \<open>Which passes advance the position\<close>

lemma update_notin_travel: "filter isMasterUpdate (snd (travel hs i a t rows)) = []"
  by (induction hs arbitrary: i) (simp_all add: case_prod_beta split: option.splits)

lemma update_notin_flush: "filter isMasterUpdate (snd (flush hs i ms)) = []"
  by (induction hs arbitrary: i) (simp_all add: case_prod_beta split: option.splits)

lemma update_notin_handleRowsEvent: "filter isMasterUpdate (snd (handleRowsEvent c e)) = []"
  by (simp add: handleRowsEvent_def travelRowsEventHandler_def Let_def update_notin_travel
      case_prod_beta split: Event.splits sum.splits)

lemma update_notin_flushEventHandlers: "filter isMasterUpdate (snd (flushEventHandlers c)) = []"
  by (simp add: flushEventHandlers_def update_notin_flush)

text \<open>
  C1, as the code has it. A pass that consumed an event and was not left with an error
  calls \<^verbatim>\<open>masterUpdate\<close> once, with the current file and the event's \<^verbatim>\<open>LogPos\<close> (for a
  Rotate event with its \<^verbatim>\<open>NextLogName\<close> and \<^verbatim>\<open>Position\<close>), and \<^verbatim>\<open>masterSave\<close> right after
  it. A \<^verbatim>\<open>TableMapEvent\<close> is exempt: the pass makes neither call and leaves the canal as
  it was.
\<close>

theorem advance_and_persist_unless_table_map:
  assumes "getEvent s (boundedWait st s) = Inr ev" and "iteration st s = (r, st1, effs)"
  shows "case Event ev of
           TableMapEvent \<Rightarrow>
             r = None \<and> canal st1 = canal st \<and> effs = [GetEventCall (boundedWait st s)]
         | RotateEvent p nextLogName \<Rightarrow>
             r = None \<longrightarrow>
               (\<exists>pre post. effs = pre @ MasterUpdateCall nextLogName p # MasterSaveCall # post \<and>
                   filter isMasterUpdate pre = [] \<and> filter isMasterUpdate post = []) \<and>
               masterStatus (canal st1) = \<lparr>File = nextLogName, Position = p\<rparr>
         | _ \<Rightarrow>
             r = None \<longrightarrow>
               (\<exists>pre post. effs = pre @ MasterUpdateCall (File (pos st))
                                         (ucast (LogPos (Header ev))) # MasterSaveCall # post \<and>
                   filter isMasterUpdate pre = [] \<and> filter isMasterUpdate post = []) \<and>
               masterStatus (canal st1) =
                 \<lparr>File = File (pos st), Position = ucast (LogPos (Header ev))\<rparr>"
proof -
  let ?st1 = "st\<lparr>timeout := Second, pos := (pos st)\<lparr>Position := ucast (LogPos (Header ev))\<rparr>\<rparr>"
  have adv: "\<exists>pre post. pre0 @ snd (updateAndSave st2 n) =
                pre @ MasterUpdateCall (File (pos st2)) (Position (pos st2)) # MasterSaveCall # post \<and>
                filter isMasterUpdate pre = [] \<and> filter isMasterUpdate post = []"
    if "filter isMasterUpdate pre0 = []" for pre0 st2 n
  proof -
    obtain post where "snd (updateAndSave st2 n) =
        MasterUpdateCall (File (pos st2)) (Position (pos st2)) # MasterSaveCall # post"
      and "filter isMasterUpdate post = []"
      using updateAndSave_effects [of st2 n] by auto
    with that show ?thesis by blast
  qed
  show ?thesis
  proof (cases "Event ev")
    case (RotateEvent p nextLogName)
    let ?st2 = "?st1\<lparr>pos := (pos ?st1)\<lparr>File := nextLogName, Position := p\<rparr>\<rparr>"
    let ?pre = "GetEventCall (boundedWait st s) # snd (flushEventHandlers (canal st)) @
         (if LogIsInfo (canal st)
          then [LogInfo ''[binlogsync] Rotate binlog to a new position''] else [])"
    show ?thesis
    proof (cases "fst (flushEventHandlers (canal st))")
      case None
      have "iteration st s =
          (None, fst (updateAndSave ?st2 (now s)), ?pre @ snd (updateAndSave ?st2 (now s)))"
        using assms(1) RotateEvent None by (simp add: iteration_def Let_def case_prod_beta)
      with assms(2) have e: "effs = ?pre @ snd (updateAndSave ?st2 (now s))"
        and s1: "st1 = fst (updateAndSave ?st2 (now s))" by simp_all
      have "filter isMasterUpdate ?pre = []"
        by (simp add: update_notin_flushEventHandlers)
      from adv [OF this, of ?st2 "now s"] e s1 RotateEvent show ?thesis
        by (simp add: updateAndSave_keeps)
    next
      case (Some err)
      then have "fst (iteration st s) \<noteq> None"
        using assms(1) RotateEvent by (simp add: iteration_def Let_def case_prod_beta)
      with assms(2) RotateEvent show ?thesis by auto
    qed
  next
    case (RowsEvent tableID schema table rows)
    let ?pre = "GetEventCall (boundedWait st s) # snd (handleRowsEvent (canal st) ev)"
    show ?thesis
    proof (cases "fst (handleRowsEvent (canal st) ev)")
      case None
      have "iteration st s =
          (None, fst (updateAndSave ?st1 (now s)), ?pre @ snd (updateAndSave ?st1 (now s)))"
        using assms(1) RowsEvent None by (simp add: iteration_def Let_def case_prod_beta)
      with assms(2) have e: "effs = ?pre @ snd (updateAndSave ?st1 (now s))"
        and s1: "st1 = fst (updateAndSave ?st1 (now s))" by simp_all
      have "filter isMasterUpdate ?pre = []"
        by (simp add: update_notin_handleRowsEvent)
      from adv [OF this, of ?st1 "now s"] e s1 RowsEvent show ?thesis
        by (simp add: updateAndSave_keeps)
    next
      case (Some err)
      then have "fst (iteration st s) \<noteq> None"
        using assms(1) RowsEvent by (simp add: iteration_def Let_def case_prod_beta)
      with assms(2) RowsEvent show ?thesis by auto
    qed
  next
    case TableMapEvent
    then show ?thesis using assms by (auto simp: iteration_def Let_def)
  next
    case GenericEvent
    let ?pre = "[GetEventCall (boundedWait st s)]"
    have "iteration st s =
        (None, fst (updateAndSave ?st1 (now s)), ?pre @ snd (updateAndSave ?st1 (now s)))"
      using assms(1) GenericEvent by (simp add: iteration_def Let_def case_prod_beta)
    with assms(2) have e: "effs = ?pre @ snd (updateAndSave ?st1 (now s))"
      and s1: "st1 = fst (updateAndSave ?st1 (now s))" by simp_all
    have "filter isMasterUpdate ?pre = []" by simp
    from adv [OF this, of ?st1 "now s"] e s1 GenericEvent show ?thesis
      by (simp add: updateAndSave_keeps)
  qed
qed

lemma table_map_example:
  "iteration quietState tableMapStep =
     (None, quietState\<lparr>pos := \<lparr>File = ''log.1'', Position = 300\<rparr>\<rparr>, [GetEventCall 2000000000])"
  by (simp add: example_defs)

lemma generic_example:
  "iteration quietState genericStep =
     (None,
      \<lparr>canal = quietCanal\<lparr>masterStatus := \<lparr>File = ''log.1'', Position = 400\<rparr>,
                            masterLastSaveTime := 63900000000000000000\<rparr>,
       pos = \<lparr>File = ''log.1'', Position = 400\<rparr>, timeout = Second, ctxArg = None\<rparr>,
      [GetEventCall 2000000000, MasterUpdateCall ''log.1'' 400, MasterSaveCall,
       WriteCall \<lparr>File = ''log.1'', Position = 400\<rparr> None])"
  by (simp add: example_defs)

theorem advance_and_persist_unless_table_map_witness:
  "canal (quietState\<lparr>pos := \<lparr>File = ''log.1'', Position = 300\<rparr>\<rparr>) = canal quietState \<and>
   masterStatus (quietCanal\<lparr>masterStatus := \<lparr>File = ''log.1'', Position = 400\<rparr>,
                            masterLastSaveTime := 63900000000000000000\<rparr>) =
     \<lparr>File = File (pos quietState), Position = 400\<rparr>"
proof -
  let ?t = "\<lparr>Header = \<lparr>EventType = 19, LogPos = 300\<rparr>, Event = TableMapEvent\<rparr>"
  let ?g = "\<lparr>Header = \<lparr>EventType = 16, LogPos = 400\<rparr>, Event = GenericEvent\<rparr>"
  have t: "getEvent tableMapStep (boundedWait quietState tableMapStep) = Inr ?t" by (simp add: tableMapStep_def)
  have g: "getEvent genericStep (boundedWait quietState genericStep) = Inr ?g" by (simp add: genericStep_def)
  from advance_and_persist_unless_table_map [OF t table_map_example]
    advance_and_persist_unless_table_map [OF g generic_example]
  show ?thesis by simp
qed

text \<open>
  C1, as the claim has it, fails on a \<^verbatim>\<open>TableMapEvent\<close>: the event carries \<^verbatim>\<open>LogPos\<close> 300,
  and after the pass no \<^verbatim>\<open>masterUpdate\<close> and no \<^verbatim>\<open>masterSave\<close> has been called; the
  canal's position is still at offset 100.
\<close>

theorem table_map_event_not_advanced:
  "fst (syncLoop quietState [tableMapStep]) = Running \<and>
   snd (snd (syncLoop quietState [tableMapStep])) = [GetEventCall 2000000000] \<and>
   masterStatus (canal (fst (snd (syncLoop quietState [tableMapStep])))) =
     \<lparr>File = ''log.1'', Position = 100\<rparr>"
  by (simp add: table_map_example) (simp add: quietState_def quietCanal_def shopCanal_def)

subsection \<open>The order on positions\<close>

lemma MasterStatus_eq_iff: "a = b \<longleftrightarrow> File a = File b \<and> Position a = Position (b::MasterStatus)"
  by (cases a; cases b) simp

lemma Compare_range: "Compare a b \<in> {- 1, 0, 1}"
  by (simp add: Compare_def)

lemma Compare_less: "Compare a b = - 1 \<longleftrightarrow> File a < File b \<or> (File a = File b \<and> Position a < Position b)"
  by (auto simp: Compare_def)

lemma Compare_greater: "Compare a b = 1 \<longleftrightarrow> File b < File a \<or> (File a = File b \<and> Position b < Position a)"
  by (auto simp: Compare_def)

lemma Compare_equal: "Compare a b = 0 \<longleftrightarrow> a = b"
  by (auto simp: Compare_def MasterStatus_eq_iff)

lemma Compare_flip: "Compare b a = - Compare a b"
  by (auto simp: Compare_def)

lemma Compare_trans: "Compare a b = - 1 \<Longrightarrow> Compare b c = - 1 \<Longrightarrow> Compare a c = - 1"
  unfolding Compare_less by (auto intro: less_trans)

lemma TestMasterStatus_Compare:
  "Compare \<lparr>File = ''mysql-bin.000001'', Position = 3\<rparr> \<lparr>File = ''mysql-bin.000001'', Position = 4\<rparr> = - 1"
  "Compare \<lparr>File = ''mysql-bin.000001'', Position = 3\<rparr> \<lparr>File = ''mysql-bin.000001'', Position = 3\<rparr> = 0"
  "Compare \<lparr>File = ''mysql-bin.000001'', Position = 3\<rparr> \<lparr>File = ''mysql-bin.000001'', Position = 2\<rparr> = 1"
  "Compare \<lparr>File = ''mysql-bin.000001'', Position = 3\<rparr> \<lparr>File = ''mysql-bin.000002'', Position = 2\<rparr> = - 1"
  "Compare \<lparr>File = ''mysql-bin.000003'', Position = 1\<rparr> \<lparr>File = ''mysql-bin.000002'', Position = 2\<rparr> = 1"
  by (simp_all add: Compare_def)

text \<open>
  C7. \<open>Compare\<close> is a total order on positions: its result is -1, 0 or 1; it is -1
  exactly when the file name is lexicographically smaller, or the file names are equal
  and the offset is smaller; it is 0 exactly for equal positions; swapping the arguments
  negates the result; and "less" is transitive. So the file name dominates the offset:
  \<open>{log.1, 200}\<close> is below \<open>{log.2, 1}\<close>.
\<close>

theorem Compare_total_order:
  "Compare a b \<in> {- 1, 0, 1} \<and>
   (Compare a b = - 1 \<longleftrightarrow>
      File a < File b \<or> (File a = File b \<and> Position a < Position b)) \<and>
   (Compare a b = 1 \<longleftrightarrow>
      File b < File a \<or> (File a = File b \<and> Position b < Position a)) \<and>
   (Compare a b = 0 \<longleftrightarrow> a = b) \<and>
   Compare b a = - Compare a b \<and>
   (Compare a b = - 1 \<and> Compare b c = - 1 \<longrightarrow> Compare a c = - 1) \<and>
   Compare \<lparr>File = ''log.1'', Position = 200\<rparr> \<lparr>File = ''log.2'', Position = 1\<rparr> = - 1"
proof (intro conjI)
  show "Compare a b \<in> {- 1, 0, 1}" by (rule Compare_range)
  show "Compare a b = - 1 \<longleftrightarrow>
      File a < File b \<or> (File a = File b \<and> Position a < Position b)"
    by (rule Compare_less)
  show "Compare a b = 1 \<longleftrightarrow>
      File b < File a \<or> (File a = File b \<and> Position b < Position a)"
    by (rule Compare_greater)
  show "Compare a b = 0 \<longleftrightarrow> a = b" by (rule Compare_equal)
  show "Compare b a = - Compare a b" by (rule Compare_flip)
  show "Compare a b = - 1 \<and> Compare b c = - 1 \<longrightarrow> Compare a c = - 1"
    using Compare_trans [of a b c] by blast
  show "Compare \<lparr>File = ''log.1'', Position = 200\<rparr> \<lparr>File = ''log.2'', Position = 1\<rparr> = - 1"
    by (simp add: Compare_def)
qed

theorem Compare_total_order_witness:
  "Compare \<lparr>File = ''log.1'', Position = 100\<rparr> \<lparr>File = ''log.1'', Position = 200\<rparr> = - 1 \<and>
   Compare \<lparr>File = ''log.1'', Position = 200\<rparr> \<lparr>File = ''log.2'', Position = 1\<rparr> = - 1 \<and>
   Compare \<lparr>File = ''log.1'', Position = 100\<rparr> \<lparr>File = ''log.2'', Position = 1\<rparr> = - 1 \<and>
   Compare \<lparr>File = ''log.2'', Position = 1\<rparr> \<lparr>File = ''log.1'', Position = 100\<rparr> = 1"
proof -
  let ?a = "\<lparr>File = ''log.1'', Position = 100\<rparr>"
  let ?b = "\<lparr>File = ''log.1'', Position = 200\<rparr>"
  let ?c = "\<lparr>File = ''log.2'', Position = 1\<rparr>"
  have ab: "File ?a = File ?b \<and> Position ?a < Position ?b" by simp
  have bc: "File ?b < File ?c" by simp
  from Compare_total_order [of ?a ?b ?c] ab have 1: "Compare ?a ?b = - 1" by blast
  from Compare_total_order [of ?b ?c ?a] bc have 2: "Compare ?b ?c = - 1" by blast
  from Compare_total_order [of ?a ?b ?c] 1 2 have 3: "Compare ?a ?c = - 1" by blast
  from Compare_total_order [of ?a ?c ?b] 3 have "Compare ?c ?a = 1" by simp
  with 1 2 3 show ?thesis by blast
qed

subsection \<open>Debounced persistence\<close>

lemma isWritten_isWrite: "isWritten e \<Longrightarrow> isWrite e"
  by (induction e rule: isWritten.induct) simp_all

lemma masterSave_debounced:
  "Sub n (masterLastSaveTime c) < Second \<Longrightarrow> masterSave c n = (None, c, [MasterSaveCall])"
  by (simp add: masterSave_def)

lemma masterSave_write_elapsed:
  "WriteCall ms r \<in> set (snd (snd (masterSave c n))) \<Longrightarrow>
   Second \<le> Sub n (masterLastSaveTime c) \<and> ms = masterStatus c"
  by (cases rule: masterSave_cases [of n c]) (auto split: if_splits)

lemma masterSave_last:
  "masterLastSaveTime (fst (snd (masterSave c n))) =
     (if WriteCall (masterStatus c) None \<in> set (snd (snd (masterSave c n)))
      then n else masterLastSaveTime c)"
  by (cases rule: masterSave_cases [of n c]) (auto split: if_splits)

lemma Sub_window:
  "t0 \<le> n \<Longrightarrow> n < t0 + Second \<Longrightarrow> t0 \<le> l \<Longrightarrow> l < t0 + Second \<Longrightarrow> Sub n l < Second"
  by (simp add: Sub_def Let_def maxDuration_def minDuration_def Second_def)

lemma burst_after_write:
  assumes "\<forall>(f, p, n) \<in> set calls. t0 \<le> n \<and> n < t0 + Second"
    and "t0 \<le> masterLastSaveTime c" and "masterLastSaveTime c < t0 + Second"
  shows "filter isWrite (snd (advancePersist c calls)) = []"
  using assms
proof (induction calls arbitrary: c)
  case Nil
  then show ?case by simp
next
  case (Cons x calls)
  obtain f p n where x: "x = (f, p, n)" by (cases x) auto
  let ?c1 = "fst (masterUpdate c f p)"
  have l: "masterLastSaveTime ?c1 = masterLastSaveTime c" by (simp add: masterUpdate_def)
  from Cons.prems x have "t0 \<le> n" "n < t0 + Second" by auto
  with Cons.prems(2,3) l have "Sub n (masterLastSaveTime ?c1) < Second"
    by (simp add: Sub_window)
  then have s: "masterSave ?c1 n = (None, ?c1, [MasterSaveCall])"
    by (rule masterSave_debounced)
  have "filter isWrite (snd (advancePersist ?c1 calls)) = []"
    using Cons.prems l by (intro Cons.IH) auto
  then show ?case using x s
    by (simp add: case_prod_beta masterUpdate_def)
qed

lemma burst_one_write:
  assumes "\<forall>(f, p, n) \<in> set calls. t0 \<le> n \<and> n < t0 + Second"
  shows "length (filter isWritten (snd (advancePersist c calls))) \<le> 1"
  using assms
proof (induction calls arbitrary: c)
  case Nil
  then show ?case by simp
next
  case (Cons x calls)
  obtain f p n where x: "x = (f, p, n)" by (cases x) auto
  let ?c1 = "fst (masterUpdate c f p)"
  from Cons.prems x have n: "t0 \<le> n" "n < t0 + Second" by auto
  from Cons.prems have rest: "\<forall>(f, p, n) \<in> set calls. t0 \<le> n \<and> n < t0 + Second" by auto
  have ih: "length (filter isWritten (snd (advancePersist ?c1 calls))) \<le> 1"
    using rest by (rule Cons.IH)
  show ?case
  proof (cases rule: masterSave_cases [of n ?c1])
    case debounced
    then show ?thesis using x ih by (simp add: case_prod_beta masterUpdate_def)
  next
    case nostore
    then show ?thesis using x ih by (simp add: case_prod_beta masterUpdate_def)
  next
    case (failed w err)
    then show ?thesis using x ih by (simp add: case_prod_beta masterUpdate_def)
  next
    case (written w)
    have "filter isWrite (snd (advancePersist (?c1\<lparr>masterLastSaveTime := n\<rparr>) calls)) = []"
      using rest n by (intro burst_after_write [where ?t0.0 = t0]) simp_all
    then have "filter isWritten (snd (advancePersist (?c1\<lparr>masterLastSaveTime := n\<rparr>) calls)) = []"
      by (auto simp: filter_empty_conv dest: isWritten_isWrite)
    then show ?thesis using x written by (simp add: case_prod_beta masterUpdate_def)
  qed
qed

lemma burst_broken_store:
  "filter isWrite (snd (advancePersist brokenStoreCanal
      [(''log.1'', 4, 63900000000000000000), (''log.1'', 8, 63900000000000000001)])) =
   [WriteCall \<lparr>File = ''log.1'', Position = 4\<rparr> (Some (ErrorString ''store down'')),
    WriteCall \<lparr>File = ''log.1'', Position = 8\<rparr> (Some (ErrorString ''store down''))]"
  by (simp add: brokenStoreCanal_def quietCanal_def shopCanal_def masterUpdate_def masterSave_def
      Sub_def maxDuration_def minDuration_def Second_def)

lemma burst_quiet:
  "filter isWrite (snd (advancePersist quietCanal
      [(''log.1'', 4, 63900000000000000000), (''log.1'', 8, 63900000000000000001)])) =
   [WriteCall \<lparr>File = ''log.1'', Position = 4\<rparr> None]"
  by (simp add: brokenStoreCanal_def quietCanal_def shopCanal_def masterUpdate_def masterSave_def
      Sub_def maxDuration_def minDuration_def Second_def)

text \<open>
  C8, as the code has it. \<^verbatim>\<open>masterSave\<close> is a no-op without error while less than a
  second has passed since \<open>masterLastSaveTime\<close>; the store is written only when at least a
  second has passed; \<open>masterLastSaveTime\<close> moves exactly when a write succeeded. So in a
  burst of \<^verbatim>\<open>masterUpdate\<close> and \<^verbatim>\<open>masterSave\<close> calls whose clock readings lie in a window
  shorter than a second, at most one write succeeds.
\<close>

theorem debounced_persist:
  "(Sub n (masterLastSaveTime c) < Second \<longrightarrow> masterSave c n = (None, c, [MasterSaveCall])) \<and>
   (WriteCall ms r \<in> set (snd (snd (masterSave c n))) \<longrightarrow>
      Second \<le> Sub n (masterLastSaveTime c) \<and> ms = masterStatus c) \<and>
   masterLastSaveTime (fst (snd (masterSave c n))) =
     (if WriteCall (masterStatus c) None \<in> set (snd (snd (masterSave c n)))
      then n else masterLastSaveTime c) \<and>
   ((\<forall>(f, p, n) \<in> set calls. t0 \<le> n \<and> n < t0 + Second) \<longrightarrow>
      length (filter isWritten (snd (advancePersist c calls))) \<le> 1)"
  using masterSave_debounced [of n c] masterSave_write_elapsed [of ms r c n]
    masterSave_last [of c n] burst_one_write [of calls t0 c]
  by blast

theorem debounced_persist_witness:
  "masterSave (quietCanal\<lparr>masterLastSaveTime := 63900000000000000000\<rparr>) 63900000000000000001 =
     (None, quietCanal\<lparr>masterLastSaveTime := 63900000000000000000\<rparr>, [MasterSaveCall]) \<and>
   length (filter isWritten (snd (advancePersist (quietCanal\<lparr>masterLastSaveTime := 63900000000000000000\<rparr>)
      [(''log.1'', 4, 63900000000000000000), (''log.1'', 8, 63900000000000000001)]))) \<le> 1 \<and>
   Second \<le> Sub 63900000000000000000 (masterLastSaveTime quietCanal)"
proof -
  let ?c = "quietCanal\<lparr>masterLastSaveTime := 63900000000000000000\<rparr>"
  let ?calls = "[(''log.1'', 4 :: 64 word, 63900000000000000000 :: int), (''log.1'', 8, 63900000000000000001)]"
  have d: "Sub 63900000000000000001 (masterLastSaveTime ?c) < Second"
    by (simp add: Sub_def maxDuration_def minDuration_def Second_def)
  have w: "\<forall>(f, p, n) \<in> set ?calls. 63900000000000000000 \<le> n \<and> n < 63900000000000000000 + Second"
    by (simp add: Second_def)
  have m: "WriteCall (masterStatus quietCanal) None
             \<in> set (snd (snd (masterSave quietCanal 63900000000000000000)))"
    by (simp add: quietCanal_def shopCanal_def masterSave_def Sub_def maxDuration_def
        minDuration_def Second_def)
  from debounced_persist [of 63900000000000000001 ?c _ _ ?calls 63900000000000000000] d w
  have 1: "masterSave ?c 63900000000000000001 = (None, ?c, [MasterSaveCall])"
    and 2: "length (filter isWritten (snd (advancePersist ?c ?calls))) \<le> 1"
    by blast+
  from debounced_persist [of 63900000000000000000 quietCanal "masterStatus quietCanal" None] m
  have 3: "Second \<le> Sub 63900000000000000000 (masterLastSaveTime quietCanal)"
    by blast
  from 1 2 3 show ?thesis by blast
qed

text \<open>
  C8, as the claim has it, fails when the store is down: a failed write leaves
  \<open>masterLastSaveTime\<close> as it was, so two calls one nanosecond apart both write to the
  store.
\<close>

theorem failed_writes_repeat_within_burst:
  "length (filter isWrite (snd (advancePersist brokenStoreCanal
      [(''log.1'', 4, 63900000000000000000), (''log.1'', 8, 63900000000000000001)]))) = 2"
  unfolding burst_broken_store by simp

end
